theory Spec2Isabelle
  imports Main "HOL-Library.Word"
begin

unbundle bit_operations_syntax

section \<open>Common data model\<close>

text \<open>
  Bytes are 8-bit words, C's \<open>unsigned short\<close> is a 16-bit word and \<open>unsigned int\<close>
  a 32-bit word. Buffers are byte lists. Sizes, offsets and loop counters that stay far
  below \<open>2 ^ 32\<close> in the source are natural numbers.
\<close>

type_synonym byte = "8 word"

text \<open>The status codes of \<open>dc_status_t\<close> (the variants listed in the data model).\<close>

datatype dc_status =
    DC_STATUS_SUCCESS
  | DC_STATUS_DONE
  | DC_STATUS_UNSUPPORTED
  | DC_STATUS_INVALIDARGS
  | DC_STATUS_NOMEMORY
  | DC_STATUS_IO
  | DC_STATUS_TIMEOUT
  | DC_STATUS_PROTOCOL
  | DC_STATUS_DATAFORMAT
  | DC_STATUS_CANCELLED

subsection \<open>Byte utilities (array.h)\<close>

text \<open>
  Modelled from the spec: the unaligned integer readers of the byte-utility layer
  (\<open>array_uint16_le\<close>, \<open>array_uint16_be\<close>, \<open>array_uint24_le\<close>, \<open>array_uint24_be\<close>,
  \<open>array_uint32_le\<close>), which live in array.c. Each reads the leading bytes of the
  buffer it is given.
\<close>

definition array_uint16_le :: "byte list \<Rightarrow> nat" where
  "array_uint16_le p = unat (p ! 0) + 256 * unat (p ! 1)"

definition array_uint16_be :: "byte list \<Rightarrow> nat" where
  "array_uint16_be p = 256 * unat (p ! 0) + unat (p ! 1)"

definition array_uint24_le :: "byte list \<Rightarrow> nat" where
  "array_uint24_le p = unat (p ! 0) + 256 * unat (p ! 1) + 65536 * unat (p ! 2)"

definition array_uint24_be :: "byte list \<Rightarrow> nat" where
  "array_uint24_be p = 65536 * unat (p ! 0) + 256 * unat (p ! 1) + unat (p ! 2)"

definition array_uint32_le :: "byte list \<Rightarrow> 32 word" where
  "array_uint32_le p =
     ucast (p ! 0) + push_bit 8 (ucast (p ! 1)) + push_bit 16 (ucast (p ! 2))
       + push_bit 24 (ucast (p ! 3))"

text \<open>
  Modelled from the spec: the equality scan \<open>array_isequal\<close> of array.c, true when each
  of the first \<open>n\<close> bytes of the buffer equals the given value.
\<close>

definition array_isequal :: "byte list \<Rightarrow> nat \<Rightarrow> byte \<Rightarrow> bool" where
  "array_isequal p n v = list_all (\<lambda>b. b = v) (take n p)"

text \<open>
  Modelled from the spec: the BCD decoder \<open>bcd2dec\<close> of array.c: ten times the high
  nibble plus the low nibble.
\<close>

definition bcd2dec :: "byte \<Rightarrow> nat" where
  "bcd2dec b = unat (drop_bit 4 b AND 0x0F) * 10 + unat (b AND 0x0F)"

text \<open>
  Modelled from the spec: the hex-to-binary conversion \<open>array_convert_hex2bin\<close> of
  array.c. It fails (the C function returns -1) when the input is not twice as long as
  the output or holds a character that is no hexadecimal digit.
\<close>

definition hex_digit :: "byte \<Rightarrow> byte option" where
  "hex_digit c =
     (if 0x30 \<le> c \<and> c \<le> 0x39 then Some (c - 0x30)
      else if 0x41 \<le> c \<and> c \<le> 0x46 then Some (10 + c - 0x41)
      else if 0x61 \<le> c \<and> c \<le> 0x66 then Some (10 + c - 0x61)
      else None)"

fun hex2bin_pairs :: "byte list \<Rightarrow> byte list option" where
  "hex2bin_pairs (h # l # rest) =
     (case hex_digit h of
        None \<Rightarrow> None
      | Some a \<Rightarrow>
          (case hex_digit l of
             None \<Rightarrow> None
           | Some b \<Rightarrow>
               (case hex2bin_pairs rest of
                  None \<Rightarrow> None
                | Some out \<Rightarrow> Some ((push_bit 4 a + b) # out))))"
| "hex2bin_pairs _ = Some []"

definition array_convert_hex2bin :: "byte list \<Rightarrow> nat \<Rightarrow> byte list option" where
  "array_convert_hex2bin inp osize =
     (if length inp \<noteq> 2 * osize then None else hex2bin_pairs inp)"

section \<open>OSTC3 firmware image (hw\_ostc3.c)\<close>

definition SZ_FIRMWARE :: nat where
  "SZ_FIRMWARE = 0x01E000"

record hw_ostc3_firmware_t =
  fw_data :: "byte list"
  fw_checksum :: "32 word"

text \<open>
  \<open>hw_ostc3_firmware_checksum\<close>: two \<open>unsigned short\<close> accumulators run over the
  image; the result is \<open>(high << 16) + low\<close> as an \<open>unsigned int\<close>. The loop is
  written over the byte list that holds the image (\<open>SZ_FIRMWARE\<close> bytes in the device
  code).
\<close>

fun checksum_loop :: "byte list \<Rightarrow> 16 word \<Rightarrow> 16 word \<Rightarrow> 16 word \<times> 16 word" where
  "checksum_loop [] low high = (low, high)"
| "checksum_loop (b # bs) low high =
     (let low' = low + ucast b; high' = high + low' in checksum_loop bs low' high')"

definition hw_ostc3_firmware_checksum :: "byte list \<Rightarrow> 32 word" where
  "hw_ostc3_firmware_checksum img =
     (case checksum_loop img 0 0 of
        (low, high) \<Rightarrow> push_bit 16 (ucast high) + ucast low)"

text \<open>
  The checksum in the words of the specification: \<open>low\<close> is the sum of all bytes,
  \<open>high\<close> the sum of the running prefix sums, both modulo \<open>2 ^ 16\<close>.
\<close>

definition fletcher_low :: "byte list \<Rightarrow> nat" where
  "fletcher_low bs = sum_list (map unat bs) mod 2 ^ 16"

definition fletcher_high :: "byte list \<Rightarrow> nat" where
  "fletcher_high bs =
     (\<Sum>k\<leftarrow>[1..<Suc (length bs)]. sum_list (map unat (take k bs))) mod 2 ^ 16"

subsection \<open>Reading the firmware file\<close>

text \<open>
  A \<open>FILE *\<close> opened for reading is the list of bytes not yet read; \<open>fread\<close> hands out
  at most the requested number of bytes and advances. \<open>fopen\<close> failing is the file
  being \<open>None\<close>.
\<close>

type_synonym fstream = "byte list"

definition fread :: "nat \<Rightarrow> fstream \<Rightarrow> byte list \<times> fstream" where
  "fread n fp = (take n fp, drop n fp)"

text \<open>
  The start-code loop of \<open>hw_ostc3_firmware_readline\<close>: bytes are read one at a
  time until a colon; CR and LF are skipped, anything else is a format error, end of
  file an I/O error.
\<close>

fun read_start_code :: "fstream \<Rightarrow> dc_status + fstream" where
  "read_start_code [] = Inl DC_STATUS_IO"
| "read_start_code (c # fp) =
     (if c = 0x3A then Inr fp
      else if c \<noteq> 0x0A \<and> c \<noteq> 0x0D then Inl DC_STATUS_DATAFORMAT
      else read_start_code fp)"

definition hw_ostc3_firmware_readline ::
  "fstream \<Rightarrow> nat \<Rightarrow> nat \<Rightarrow> dc_status + (byte list \<times> fstream)" where
  "hw_ostc3_firmware_readline fp addr n =
     (if n > 16 then Inl DC_STATUS_INVALIDARGS
      else case read_start_code fp of
        Inl e \<Rightarrow> Inl e
      | Inr fp1 \<Rightarrow>
          (case fread (6 + n * 2) fp1 of
             (ascii, fp2) \<Rightarrow>
               if length ascii \<noteq> 6 + n * 2 then Inl DC_STATUS_IO
               else case array_convert_hex2bin (take 6 ascii) 3 of
                 None \<Rightarrow> Inl DC_STATUS_DATAFORMAT
               | Some faddr_byte \<Rightarrow>
                   if array_uint24_be faddr_byte \<noteq> addr then Inl DC_STATUS_DATAFORMAT
                   else case array_convert_hex2bin (drop 6 ascii) n of
                     None \<Rightarrow> Inl DC_STATUS_DATAFORMAT
                   | Some payload \<Rightarrow> Inr (payload, fp2)))"

definition ostc3_key :: "byte list" where
  "ostc3_key =
     [0xF1, 0xE9, 0xB0, 0x30, 0x45, 0x6F, 0xBE, 0x55,
      0xFF, 0xE7, 0xF8, 0x31, 0x13, 0x6C, 0xF2, 0xFE]"

text \<open>
  The block loop of \<open>hw_ostc3_firmware_readfile\<close>. The AES block function
  (\<open>AES128_ECB_encrypt\<close> of aes.h, taking the input block and the key) is a parameter.
  The image size \<open>sz\<close> is \<open>SZ_FIRMWARE\<close> in the source, a multiple of the block
  size 16, so that every block write stays inside the image.
\<close>

definition decrypt_block :: "nat \<Rightarrow> byte list \<Rightarrow> byte list \<Rightarrow> byte list \<Rightarrow> byte list" where
  "decrypt_block addr encrypted tmpbuf img =
     fold (\<lambda>i d. d[addr + i := (encrypted ! i) XOR (tmpbuf ! i)]) [0..<16] img"

function firmware_block_loop ::
  "(byte list \<Rightarrow> byte list \<Rightarrow> byte list) \<Rightarrow> nat \<Rightarrow> fstream \<Rightarrow> nat \<Rightarrow> nat \<Rightarrow>
     byte list \<Rightarrow> byte list \<Rightarrow> dc_status + (byte list \<times> nat \<times> fstream)" where
  "firmware_block_loop aes sz fp addr bytes tmpbuf img =
     (if addr < sz then
        (case hw_ostc3_firmware_readline fp bytes 16 of
           Inl e \<Rightarrow> Inl e
         | Inr (encrypted, fp') \<Rightarrow>
             firmware_block_loop aes sz fp' (addr + 16) (bytes + 16)
               (aes encrypted ostc3_key) (decrypt_block addr encrypted tmpbuf img))
      else Inr (img, bytes, fp))"
  by pat_completeness auto
termination
  by (relation "measure (\<lambda>(aes, sz, fp, addr, bytes, tmpbuf, img). sz - addr)") auto

declare firmware_block_loop.simps [simp del]

text \<open>
  Everything \<open>hw_ostc3_firmware_readfile\<close> does before it compares checksums: the
  header line with the initialisation vector, the encrypted blocks and the four-byte
  tail. The result is the decrypted image and the tail bytes, or the status of the
  step that failed.
\<close>

definition hw_ostc3_firmware_load ::
  "nat \<Rightarrow> (byte list \<Rightarrow> byte list \<Rightarrow> byte list) \<Rightarrow> fstream option \<Rightarrow>
     dc_status + (byte list \<times> byte list)" where
  "hw_ostc3_firmware_load sz aes f =
     (case f of
        None \<Rightarrow> Inl DC_STATUS_IO
      | Some fp \<Rightarrow>
          (case hw_ostc3_firmware_readline fp 0 16 of
             Inl e \<Rightarrow> Inl e
           | Inr (iv, fp1) \<Rightarrow>
               (case firmware_block_loop aes sz fp1 0 16 (aes iv ostc3_key)
                       (replicate sz 0xFF) of
                  Inl e \<Rightarrow> Inl e
                | Inr (img, bytes, fp2) \<Rightarrow>
                    (case hw_ostc3_firmware_readline fp2 bytes 4 of
                       Inl e \<Rightarrow> Inl e
                     | Inr (checksum, fp3) \<Rightarrow> Inr (img, checksum)))))"

definition hw_ostc3_firmware_readfile_sz ::
  "nat \<Rightarrow> (byte list \<Rightarrow> byte list \<Rightarrow> byte list) \<Rightarrow> fstream option \<Rightarrow> dc_status" where
  "hw_ostc3_firmware_readfile_sz sz aes f =
     (case hw_ostc3_firmware_load sz aes f of
        Inl e \<Rightarrow> e
      | Inr (img, checksum) \<Rightarrow>
          if array_uint32_le checksum \<noteq> hw_ostc3_firmware_checksum img
          then DC_STATUS_DATAFORMAT
          else DC_STATUS_SUCCESS)"

definition hw_ostc3_firmware_readfile ::
  "(byte list \<Rightarrow> byte list \<Rightarrow> byte list) \<Rightarrow> fstream option \<Rightarrow> dc_status" where
  "hw_ostc3_firmware_readfile = hw_ostc3_firmware_readfile_sz SZ_FIRMWARE"

text \<open>
  A small firmware file used to exercise the loader: a header line, one encrypted block
  at address \<open>0x10\<close> and the tail line at address \<open>0x20\<close>, with an AES stand-in that
  returns the zero block.
\<close>

definition demo_firmware_file :: "byte list" where
  "demo_firmware_file =
     [0x3A, 0x30,0x30,0x30,0x30,0x30,0x30,
      0x30,0x30,0x30,0x30,0x30,0x30,0x30,0x30,0x30,0x30,0x30,0x30,0x30,0x30,0x30,0x30,
      0x30,0x30,0x30,0x30,0x30,0x30,0x30,0x30,0x30,0x30,0x30,0x30,0x30,0x30,0x30,0x30,
      0x0A,
      0x3A, 0x30,0x30,0x30,0x30,0x31,0x30,
      0x30,0x31,0x30,0x32,0x30,0x33,0x30,0x30,0x30,0x30,0x30,0x30,0x30,0x30,0x30,0x30,
      0x30,0x30,0x30,0x30,0x30,0x30,0x30,0x30,0x30,0x30,0x30,0x30,0x30,0x30,0x30,0x30,
      0x0D, 0x0A,
      0x3A, 0x30,0x30,0x30,0x30,0x32,0x30,
      0x30,0x36,0x30,0x30,0x30,0x41,0x30,0x30]"

definition demo_aes :: "byte list \<Rightarrow> byte list \<Rightarrow> byte list" where
  "demo_aes blk k = replicate 16 0"

section \<open>Serial channel\<close>

text \<open>
  The device sessions reach the serial line through a table of functions
  (\<open>device->serial->ops->write\<close>, \<open>read\<close>, \<open>get_received\<close>), or through the
  \<open>serial_write\<close>, \<open>serial_read\<close> and \<open>serial_get_received\<close> functions of serial.h.
  The table is a record of functions over an arbitrary port state \<open>'c\<close>:
  \<^item> \<open>ops_write port bytes\<close> returns the C return value (the count, or -1);
  \<^item> \<open>ops_read port n\<close> returns the C return value and the bytes received;
  \<^item> \<open>ops_get_received port\<close> returns the number of bytes waiting (the call is taken to
    succeed, so the number is not negative);
  \<^item> \<open>ops_cancelled port\<close> is \<open>device_is_cancelled\<close>, the cancellation flag of the
    context.
  Progress and device-info events, sleeps and flushes do not influence the control flow
  and are left out. Memory allocation is taken to succeed and to hand out zero-filled
  memory.
\<close>

record 'c serial_ops =
  ops_write :: "'c \<Rightarrow> byte list \<Rightarrow> int \<times> 'c"
  ops_read :: "'c \<Rightarrow> nat \<Rightarrow> (int \<times> byte list) \<times> 'c"
  ops_get_received :: "'c \<Rightarrow> nat \<times> 'c"
  ops_cancelled :: "'c \<Rightarrow> bool"

definition EXITCODE :: "int \<Rightarrow> dc_status" where
  "EXITCODE rc = (if rc = - 1 then DC_STATUS_IO else DC_STATUS_TIMEOUT)"

text \<open>A read stores the received bytes at the start of the buffer and keeps its length.\<close>

definition read_buffer :: "byte list \<Rightarrow> byte list \<Rightarrow> byte list" where
  "read_buffer buf bytes = take (length buf) bytes @ drop (length bytes) buf"

text \<open>
  The answer loop shared by \<open>hw_ostc3_transfer\<close> and \<open>hw_frog_transfer\<close>: packets of
  at least 1024 bytes, larger when more is waiting, never beyond the total size.
\<close>

function transfer_output ::
  "'c serial_ops \<Rightarrow> 'c \<Rightarrow> nat \<Rightarrow> nat \<Rightarrow> byte list \<Rightarrow> dc_status \<times> byte list \<times> 'c" where
  "transfer_output ops port nbytes osize out =
     (if nbytes < osize then
        (let available = fst (ops_get_received ops port);
             port1 = snd (ops_get_received ops port);
             len0 = (if available > 1024 then available else 1024);
             len = (if nbytes + len0 > osize then osize - nbytes else len0);
             n = fst (fst (ops_read ops port1 len));
             bytes = snd (fst (ops_read ops port1 len));
             port2 = snd (ops_read ops port1 len)
         in if n \<noteq> int len then (EXITCODE n, out, port2)
            else transfer_output ops port2 (nbytes + len) osize
                   (take nbytes out @ read_buffer (take len (drop nbytes out)) bytes
                      @ drop (nbytes + len) out))
      else (DC_STATUS_SUCCESS, out, port))"
  by pat_completeness auto
termination
  by (relation "measure (\<lambda>(ops, port, nbytes, osize, out). osize - nbytes)")
     (auto simp: Let_def split: if_splits)

declare transfer_output.simps [simp del]

section \<open>OSTC3 session (hw\_ostc3.c)\<close>

definition SZ_VERSION :: nat where "SZ_VERSION = 64"
definition SZ_HARDWARE :: nat where "SZ_HARDWARE = 1"
definition RB_LOGBOOK_SIZE_COMPACT :: nat where "RB_LOGBOOK_SIZE_COMPACT = 16"
definition RB_LOGBOOK_SIZE_FULL :: nat where "RB_LOGBOOK_SIZE_FULL = 256"
definition RB_LOGBOOK_COUNT :: nat where "RB_LOGBOOK_COUNT = 256"

definition S_READY :: byte where "S_READY = 0x4C"
definition READY :: byte where "READY = 0x4D"
definition HEADER :: byte where "HEADER = 0x61"
definition DIVE :: byte where "DIVE = 0x66"
definition IDENTITY :: byte where "IDENTITY = 0x69"
definition HARDWARE :: byte where "HARDWARE = 0x6A"
definition COMPACT :: byte where "COMPACT = 0x6D"
definition INIT :: byte where "INIT = 0xBB"
definition EXIT :: byte where "EXIT = 0xFF"

datatype hw_ostc3_state_t = OPEN | DOWNLOAD | SERVICE | REBOOTING

record 'c hw_ostc3_device_t =
  serial_port :: 'c
  fingerprint :: "byte list"
  state :: hw_ostc3_state_t

record hw_ostc3_logbook_t =
  lb_size :: nat
  lb_profile :: nat
  lb_fingerprint :: nat
  lb_number :: nat

definition hw_ostc3_logbook_compact :: hw_ostc3_logbook_t where
  "hw_ostc3_logbook_compact =
     \<lparr>lb_size = RB_LOGBOOK_SIZE_COMPACT, lb_profile = 0, lb_fingerprint = 3, lb_number = 13\<rparr>"

definition hw_ostc3_logbook_full :: hw_ostc3_logbook_t where
  "hw_ostc3_logbook_full =
     \<lparr>lb_size = RB_LOGBOOK_SIZE_FULL, lb_profile = 9, lb_fingerprint = 12, lb_number = 80\<rparr>"

subsection \<open>Command transfer\<close>

definition hw_ostc3_ready :: "hw_ostc3_state_t \<Rightarrow> byte" where
  "hw_ostc3_ready st = (if st = SERVICE then S_READY else READY)"

text \<open>The input packet stage: \<open>None\<close> when nothing failed.\<close>

definition transfer_input ::
  "'c serial_ops \<Rightarrow> 'c \<Rightarrow> byte list option \<Rightarrow> dc_status option \<times> 'c" where
  "transfer_input ops port inp =
     (case inp of
        None \<Rightarrow> (None, port)
      | Some packet \<Rightarrow>
          (case ops_write ops port packet of
             (n, port1) \<Rightarrow>
               if n \<noteq> int (length packet) then (Some (EXITCODE n), port1)
               else (None, port1)))"

text \<open>The ready byte stage, skipped for the \<open>EXIT\<close> command.\<close>

definition transfer_ready ::
  "'c serial_ops \<Rightarrow> 'c \<Rightarrow> byte \<Rightarrow> byte \<Rightarrow> dc_status \<times> 'c" where
  "transfer_ready ops port cmd ready =
     (if cmd \<noteq> EXIT then
        (case ops_read ops port 1 of
           ((n, bytes), port1) \<Rightarrow>
             if n \<noteq> 1 then (EXITCODE n, port1)
             else if read_buffer [0] bytes ! 0 \<noteq> ready then (DC_STATUS_PROTOCOL, port1)
             else (DC_STATUS_SUCCESS, port1))
      else (DC_STATUS_SUCCESS, port))"

text \<open>
  What follows a verified echo: the input packet, the answer and the ready byte. A
  \<open>NULL\<close> output buffer is the empty buffer (every call with \<open>NULL\<close> passes size 0, and
  the answer loop does not run for size 0).
\<close>

definition transfer_data ::
  "'c serial_ops \<Rightarrow> 'c \<Rightarrow> byte \<Rightarrow> byte \<Rightarrow> byte list option \<Rightarrow> byte list \<Rightarrow>
     dc_status \<times> byte list \<times> 'c" where
  "transfer_data ops port cmd ready inp out =
     (case transfer_input ops port inp of
        (Some e, port1) \<Rightarrow> (e, out, port1)
      | (None, port1) \<Rightarrow>
          (case transfer_output ops port1 0 (length out) out of
             (rc, out', port2) \<Rightarrow>
               if rc \<noteq> DC_STATUS_SUCCESS then (rc, out', port2)
               else (case transfer_ready ops port2 cmd ready of
                       (rc', port3) \<Rightarrow> (rc', out', port3))))"

definition hw_ostc3_transfer ::
  "'c serial_ops \<Rightarrow> 'c hw_ostc3_device_t \<Rightarrow> byte \<Rightarrow> byte list option \<Rightarrow> byte list \<Rightarrow>
     dc_status \<times> byte list \<times> 'c hw_ostc3_device_t" where
  "hw_ostc3_transfer ops device cmd inp out =
     (if ops_cancelled ops (serial_port device) then (DC_STATUS_CANCELLED, out, device)
      else
        (let ready = hw_ostc3_ready (state device) in
         case ops_write ops (serial_port device) [cmd] of
           (n, port1) \<Rightarrow>
             if n \<noteq> 1 then (EXITCODE n, out, device\<lparr>serial_port := port1\<rparr>)
             else
               (case ops_read ops port1 1 of
                  ((n', bytes), port2) \<Rightarrow>
                    if n' \<noteq> 1 then (EXITCODE n', out, device\<lparr>serial_port := port2\<rparr>)
                    else
                      (let echo = read_buffer [0] bytes in
                       if echo \<noteq> [cmd] then
                         (if echo ! 0 = ready
                          then (DC_STATUS_UNSUPPORTED, out, device\<lparr>serial_port := port2\<rparr>)
                          else (DC_STATUS_PROTOCOL, out, device\<lparr>serial_port := port2\<rparr>))
                       else
                         (case transfer_data ops port2 cmd ready inp out of
                            (rc, out', port3) \<Rightarrow>
                              (rc, out', device\<lparr>serial_port := port3\<rparr>))))))"

subsection \<open>Session state\<close>

definition hw_ostc3_device_init_download ::
  "'c serial_ops \<Rightarrow> 'c hw_ostc3_device_t \<Rightarrow> dc_status \<times> 'c hw_ostc3_device_t" where
  "hw_ostc3_device_init_download ops device =
     (case hw_ostc3_transfer ops device INIT None [] of
        (status, out, device1) \<Rightarrow>
          if status \<noteq> DC_STATUS_SUCCESS then (status, device1)
          else (DC_STATUS_SUCCESS, device1\<lparr>state := DOWNLOAD\<rparr>))"

definition hw_ostc3_device_init_service ::
  "'c serial_ops \<Rightarrow> 'c hw_ostc3_device_t \<Rightarrow> dc_status \<times> 'c hw_ostc3_device_t" where
  "hw_ostc3_device_init_service ops device =
     (case ops_write ops (serial_port device) [0xAA, 0xAB, 0xCD, 0xEF] of
        (n, port1) \<Rightarrow>
          if n \<noteq> 4 then (EXITCODE n, device\<lparr>serial_port := port1\<rparr>)
          else
            (case ops_read ops port1 5 of
               ((n', bytes), port2) \<Rightarrow>
                 if n' \<noteq> 5 then (EXITCODE n', device\<lparr>serial_port := port2\<rparr>)
                 else
                   (let output = read_buffer [0, 0, 0, 0, 0] bytes in
                    if output ! 0 \<noteq> 0x4B \<or> output ! 1 \<noteq> 0xAB \<or> output ! 2 \<noteq> 0xCD
                       \<or> output ! 3 \<noteq> 0xEF \<or> output ! 4 \<noteq> S_READY
                    then (DC_STATUS_PROTOCOL, device\<lparr>serial_port := port2\<rparr>)
                    else (DC_STATUS_SUCCESS, device\<lparr>serial_port := port2, state := SERVICE\<rparr>))))"

definition hw_ostc3_device_init ::
  "'c serial_ops \<Rightarrow> 'c hw_ostc3_device_t \<Rightarrow> hw_ostc3_state_t \<Rightarrow>
     dc_status \<times> 'c hw_ostc3_device_t" where
  "hw_ostc3_device_init ops device st =
     (if state device = st then (DC_STATUS_SUCCESS, device)
      else if state device = OPEN then
        (if st = DOWNLOAD then hw_ostc3_device_init_download ops device
         else if st = SERVICE then hw_ostc3_device_init_service ops device
         else (DC_STATUS_INVALIDARGS, device))
      else if state device = SERVICE \<and> st = DOWNLOAD then (DC_STATUS_SUCCESS, device)
      else (DC_STATUS_INVALIDARGS, device))"

text \<open>
  \<open>hw_ostc3_device_set_fingerprint\<close>: \<open>data\<close> is the caller's buffer and \<open>n\<close> the size
  passed with it; \<open>memcpy\<close> copies the five bytes of the fingerprint field.
\<close>

definition hw_ostc3_device_set_fingerprint ::
  "'c hw_ostc3_device_t \<Rightarrow> byte list \<Rightarrow> nat \<Rightarrow> dc_status \<times> 'c hw_ostc3_device_t" where
  "hw_ostc3_device_set_fingerprint device data n =
     (if n \<noteq> 0 \<and> n \<noteq> 5 then (DC_STATUS_INVALIDARGS, device)
      else if n \<noteq> 0 then (DC_STATUS_SUCCESS, device\<lparr>fingerprint := take 5 data\<rparr>)
      else (DC_STATUS_SUCCESS, device\<lparr>fingerprint := replicate 5 0\<rparr>))"

definition hw_ostc3_device_version ::
  "'c serial_ops \<Rightarrow> 'c hw_ostc3_device_t \<Rightarrow> byte list \<Rightarrow>
     dc_status \<times> byte list \<times> 'c hw_ostc3_device_t" where
  "hw_ostc3_device_version ops device data =
     (if length data \<noteq> SZ_VERSION then (DC_STATUS_INVALIDARGS, data, device)
      else
        (case hw_ostc3_device_init ops device DOWNLOAD of
           (rc, device1) \<Rightarrow>
             if rc \<noteq> DC_STATUS_SUCCESS then (rc, data, device1)
             else hw_ostc3_transfer ops device1 IDENTITY None data))"

definition hw_ostc3_device_hardware ::
  "'c serial_ops \<Rightarrow> 'c hw_ostc3_device_t \<Rightarrow> byte list \<Rightarrow>
     dc_status \<times> byte list \<times> 'c hw_ostc3_device_t" where
  "hw_ostc3_device_hardware ops device data =
     (if length data \<noteq> SZ_HARDWARE then (DC_STATUS_INVALIDARGS, data, device)
      else
        (case hw_ostc3_device_init ops device DOWNLOAD of
           (rc, device1) \<Rightarrow>
             if rc \<noteq> DC_STATUS_SUCCESS then (rc, data, device1)
             else hw_ostc3_transfer ops device1 HARDWARE None data))"

section \<open>Uwatec Aladin session (uwatec\_aladin.c)\<close>

record uwatec_aladin_device_t =
  timestamp :: "32 word"
  devtime :: "32 word"

definition uwatec_aladin_device_set_fingerprint ::
  "uwatec_aladin_device_t \<Rightarrow> byte list \<Rightarrow> nat \<Rightarrow> dc_status \<times> uwatec_aladin_device_t" where
  "uwatec_aladin_device_set_fingerprint device data n =
     (if n \<noteq> 0 \<and> n \<noteq> 4 then (DC_STATUS_INVALIDARGS, device)
      else if n \<noteq> 0 then (DC_STATUS_SUCCESS, device\<lparr>timestamp := array_uint32_le data\<rparr>)
      else (DC_STATUS_SUCCESS, device\<lparr>timestamp := 0\<rparr>))"

text \<open>
  A port for concrete runs: the device's bytes are queued in \<open>rx\<close>; a read of \<open>n\<close>
  bytes hands out what is there (a short read when fewer are queued), a write always
  succeeds, nothing is reported as waiting and nothing is cancelled.
\<close>

definition queue_ops :: "(byte list) serial_ops" where
  "queue_ops =
     \<lparr>ops_write = (\<lambda>rx bytes. (int (length bytes), rx)),
      ops_read = (\<lambda>rx n. ((int (length (take n rx)), take n rx), drop n rx)),
      ops_get_received = (\<lambda>rx. (0, rx)),
      ops_cancelled = (\<lambda>rx. False)\<rparr>"

section \<open>Oceanic Atom2 parser (oceanic\_atom2\_parser.c)\<close>

definition VT3 :: nat where "VT3 = 0x4258"
definition T3A :: nat where "T3A = 0x4259"
definition ATOM2 :: nat where "ATOM2 = 0x4342"
definition OC1A :: nat where "OC1A = 0x434E"
definition F10 :: nat where "F10 = 0x434D"
definition VEO20 :: nat where "VEO20 = 0x4359"
definition VEO30 :: nat where "VEO30 = 0x435A"
definition ZENAIR :: nat where "ZENAIR = 0x4442"
definition GEO20 :: nat where "GEO20 = 0x4446"
definition VT4 :: nat where "VT4 = 0x4447"
definition OC1B :: nat where "OC1B = 0x4449"
definition VOYAGER2G :: nat where "VOYAGER2G = 0x444B"
definition ATOM3 :: nat where "ATOM3 = 0x444C"
definition DG03 :: nat where "DG03 = 0x444D"
definition OCS :: nat where "OCS = 0x4450"
definition OC1C :: nat where "OC1C = 0x4451"
definition VT41 :: nat where "VT41 = 0x4452"
definition T3B :: nat where "T3B = 0x4455"
definition ATOM31 :: nat where "ATOM31 = 0x4456"
definition A300AI :: nat where "A300AI = 0x4457"
definition TX1 :: nat where "TX1 = 0x4542"
definition AMPHOS :: nat where "AMPHOS = 0x4545"
definition AMPHOSAIR :: nat where "AMPHOSAIR = 0x4546"
definition PROPLUS3 :: nat where "PROPLUS3 = 0x4548"
definition F11A :: nat where "F11A = 0x4549"
definition OCI :: nat where "OCI = 0x454B"
definition A300CS :: nat where "A300CS = 0x454C"
definition F11B :: nat where "F11B = 0x4554"
definition VTX :: nat where "VTX = 0x4557"

record dc_datetime_t =
  year :: int
  month :: int
  day :: int
  hour :: int
  minute :: int
  second :: int

text \<open>
  The model switch of \<open>oceanic_atom2_parser_get_datetime\<close>: the fields as they are
  decoded from the header bytes \<open>p\<close>, and the AM/PM bit of the 12-hour clock.
\<close>

definition bv :: "byte \<Rightarrow> int" where
  "bv b = int (unat b)"

definition oceanic_decode_datetime :: "nat \<Rightarrow> byte list \<Rightarrow> dc_datetime_t \<times> bool" where
  "oceanic_decode_datetime model p =
     (if model \<in> {OC1A, OC1B, OC1C, OCS, VT4, VT41, ATOM3, ATOM31, A300AI, OCI} then
        (\<lparr>year = bv (drop_bit 5 (p ! 5 AND 0xE0)) + bv (drop_bit 2 (p ! 7 AND 0xE0)) + 2000,
          month = bv (p ! 3 AND 0x0F),
          day = bv (drop_bit 3 (p ! 0 AND 0x80)) + bv (drop_bit 4 (p ! 3 AND 0xF0)),
          hour = int (bcd2dec (p ! 1 AND 0x1F)),
          minute = int (bcd2dec (p ! 0 AND 0x7F)),
          second = 0\<rparr>, p ! 1 AND 0x80 \<noteq> 0)
      else if model \<in> {VT3, VEO20, VEO30, DG03, T3A, T3B, GEO20, PROPLUS3} then
        (\<lparr>year = bv (drop_bit 1 (p ! 3 AND 0xE0)) + bv (p ! 4 AND 0x0F) + 2000,
          month = bv (drop_bit 4 (p ! 4 AND 0xF0)),
          day = bv (p ! 3 AND 0x1F),
          hour = int (bcd2dec (p ! 1 AND 0x1F)),
          minute = int (bcd2dec (p ! 0)),
          second = 0\<rparr>, p ! 1 AND 0x80 \<noteq> 0)
      else if model \<in> {ZENAIR, AMPHOS, AMPHOSAIR, VOYAGER2G} then
        (\<lparr>year = bv (p ! 3 AND 0x0F) + 2000,
          month = bv (drop_bit 4 (p ! 7 AND 0xF0)),
          day = bv (drop_bit 3 (p ! 3 AND 0x80)) + bv (drop_bit 4 (p ! 5 AND 0xF0)),
          hour = int (bcd2dec (p ! 1 AND 0x1F)),
          minute = int (bcd2dec (p ! 0)),
          second = 0\<rparr>, p ! 1 AND 0x80 \<noteq> 0)
      else if model \<in> {F10, F11A, F11B} then
        (\<lparr>year = int (bcd2dec (p ! 6)) + 2000,
          month = int (bcd2dec (p ! 7)),
          day = int (bcd2dec (p ! 8)),
          hour = int (bcd2dec (p ! 13 AND 0x7F)),
          minute = int (bcd2dec (p ! 12)),
          second = 0\<rparr>, p ! 13 AND 0x80 \<noteq> 0)
      else if model = TX1 then
        (\<lparr>year = int (bcd2dec (p ! 13)) + 2000,
          month = int (bcd2dec (p ! 14)),
          day = int (bcd2dec (p ! 15)),
          hour = bv (p ! 11),
          minute = bv (p ! 10),
          second = 0\<rparr>, p ! 1 AND 0x80 \<noteq> 0)
      else if model \<in> {A300CS, VTX} then
        (\<lparr>year = bv (p ! 10) + 2000,
          month = bv (p ! 8),
          day = bv (p ! 9),
          hour = int (bcd2dec (p ! 1 AND 0x1F)),
          minute = int (bcd2dec (p ! 0)),
          second = 0\<rparr>, p ! 1 AND 0x80 \<noteq> 0)
      else
        (\<lparr>year = int (bcd2dec (drop_bit 2 (p ! 3 AND 0xC0) + (p ! 4 AND 0x0F))) + 2000,
          month = bv (drop_bit 4 (p ! 4 AND 0xF0)),
          day = int (bcd2dec (p ! 3 AND 0x3F)),
          hour = int (bcd2dec (p ! 1 AND 0x1F)),
          minute = int (bcd2dec (p ! 0)),
          second = 0\<rparr>, p ! 1 AND 0x80 \<noteq> 0))"

text \<open>
  The workaround for the year 2010 problem. \<open>now\<close> is the year of the host's local
  time, \<open>None\<close> when \<open>dc_datetime_localtime\<close> fails. The years involved are positive,
  where C's \<open>/\<close> and \<open>%\<close> agree with \<open>div\<close> and \<open>mod\<close>.
\<close>

definition year2010_workaround :: "int \<Rightarrow> int option \<Rightarrow> int" where
  "year2010_workaround y now =
     (if y < 2010 then
        (case now of
           None \<Rightarrow> y
         | Some now_year \<Rightarrow>
             if now_year \<ge> 2010 then
               (let decade = (now_year div 10) * 10;
                    decade' = (if y mod 10 > now_year mod 10 then decade - 10 else decade)
                in y + (decade' - 2000))
             else y)
      else y)"

text \<open>
  \<open>oceanic_atom2_parser_get_datetime\<close> with a non-\<open>NULL\<close> \<open>datetime\<close>. The blob is
  \<open>p\<close>; its size is the length of the list.
\<close>

definition oceanic_atom2_parser_get_datetime ::
  "nat \<Rightarrow> byte list \<Rightarrow> int option \<Rightarrow> dc_status + dc_datetime_t" where
  "oceanic_atom2_parser_get_datetime model p now =
     (let header = (if model = F10 \<or> model = F11A \<or> model = F11B then 32 else 8) in
      if length p < header then Inl DC_STATUS_DATAFORMAT
      else
        (case oceanic_decode_datetime model p of
           (dt, pm) \<Rightarrow>
             (let h = hour dt mod 12;
                  h' = (if pm then h + 12 else h)
              in Inr (dt\<lparr>hour := h', year := year2010_workaround (year dt) now\<rparr>))))"

text \<open>A TX1 header whose BCD year byte (offset 13) is \<open>0x05\<close>: 10:30 on 17 March 2005.\<close>

definition demo_tx1_header :: "byte list" where
  "demo_tx1_header =
     [0, 0, 0, 0, 0, 0, 0, 0, 0, 0, 30, 10, 0, 0x05, 0x03, 0x17]"

text \<open>An Atom 2 header (default layout) with BCD year 9 and day 17, month 3.\<close>

definition demo_atom2_header :: "byte list" where
  "demo_atom2_header = [0x30, 0x10, 0, 0x17, 0x39, 0, 0, 0]"

text \<open>A TX1 header whose BCD year byte is \<open>0x15\<close>: the year 2015, stored in full.\<close>

definition demo_tx1_header_2015 :: "byte list" where
  "demo_tx1_header_2015 =
     [0, 0, 0, 0, 0, 0, 0, 0, 0, 0, 30, 10, 0, 0x15, 0x03, 0x17]"

section \<open>Samples\<close>

text \<open>
  The sample callback returns nothing, so a sample loop is modelled by the list of
  samples it hands to the callback, in order. Values that the source converts to
  floating point (depth, temperature, pressure, ppO2, setpoint, CNS) are kept as the
  integer read from the blob, before the unit conversion. A vendor sample carries the
  offset and size of the slice of the blob it points to.
\<close>

datatype dc_deco_type = DC_DECO_NDL | DC_DECO_SAFETYSTOP | DC_DECO_DECOSTOP | DC_DECO_DEEPSTOP

datatype dc_sample =
    DC_SAMPLE_TIME nat
  | DC_SAMPLE_DEPTH nat
  | DC_SAMPLE_PRESSURE nat nat
  | DC_SAMPLE_TEMPERATURE int
  | DC_SAMPLE_EVENT nat nat nat nat
  | DC_SAMPLE_VENDOR nat nat
  | DC_SAMPLE_SETPOINT nat
  | DC_SAMPLE_PPO2 nat
  | DC_SAMPLE_CNS nat
  | DC_SAMPLE_DECO dc_deco_type nat nat
  | DC_SAMPLE_GASMIX nat

datatype dc_divemode_t =
  DC_DIVEMODE_FREEDIVE | DC_DIVEMODE_GAUGE | DC_DIVEMODE_OC | DC_DIVEMODE_CC

text \<open>The values of the Time samples and the indices of the GasMix samples of a stream.\<close>

fun sample_times :: "dc_sample list \<Rightarrow> nat list" where
  "sample_times [] = []"
| "sample_times (DC_SAMPLE_TIME t # xs) = t # sample_times xs"
| "sample_times (_ # xs) = sample_times xs"

fun sample_gasmixes :: "dc_sample list \<Rightarrow> nat list" where
  "sample_gasmixes [] = []"
| "sample_gasmixes (DC_SAMPLE_GASMIX i # xs) = i # sample_gasmixes xs"
| "sample_gasmixes (_ # xs) = sample_gasmixes xs"

text \<open>
  \<open>unsigned int\<close> arithmetic, where the source can reach the wrap-around: the value
  modulo \<open>2 ^ 32\<close>.
\<close>

definition u32 :: "nat \<Rightarrow> nat" where
  "u32 x = x mod 4294967296"

section \<open>Shearwater Predator and Petrel parser (shearwater\_predator\_parser.c)\<close>

definition SZ_BLOCK :: nat where "SZ_BLOCK = 0x80"
definition SZ_SAMPLE_PREDATOR :: nat where "SZ_SAMPLE_PREDATOR = 0x10"
definition SZ_SAMPLE_PETREL :: nat where "SZ_SAMPLE_PETREL = 0x20"
definition SETPOINT_HIGH :: byte where "SETPOINT_HIGH = 0x04"
definition OC :: byte where "OC = 0x10"
definition IMPERIAL :: nat where "IMPERIAL = 1"
definition NGASMIXES :: nat where "NGASMIXES = 10"

text \<open>
  The parser object. \<open>sw_data\<close> is the blob bound by \<open>dc_parser_set_data\<close>
  (\<open>abstract->data\<close>, its size the length of the list, below \<open>2 ^ 32\<close>). The sample
  size is fixed by the \<open>petrel\<close> flag when the parser is created and never changes, so
  it is read off the flag.
\<close>

record shearwater_predator_parser_t =
  sw_data :: "byte list"
  petrel :: nat
  cached :: nat
  headersize :: nat
  footersize :: nat
  ngasmixes :: nat
  oxygen :: "nat list"
  helium :: "nat list"
  serial :: nat
  divemode :: dc_divemode_t
  sensor_cal_value :: "nat list"
  sensor_adc_offset :: "int list"

definition samplesize :: "nat \<Rightarrow> nat" where
  "samplesize is_petrel = (if is_petrel \<noteq> 0 then SZ_SAMPLE_PETREL else SZ_SAMPLE_PREDATOR)"

definition shearwater_common_parser_create :: "nat \<Rightarrow> nat \<Rightarrow> shearwater_predator_parser_t" where
  "shearwater_common_parser_create serialno is_petrel =
     \<lparr>sw_data = [], petrel = is_petrel, cached = 0, headersize = 0, footersize = 0,
      ngasmixes = 0, oxygen = replicate NGASMIXES 0, helium = replicate NGASMIXES 0,
      serial = serialno, divemode = DC_DIVEMODE_OC,
      sensor_cal_value = [0, 0, 0], sensor_adc_offset = [0, 0, 0]\<rparr>"

text \<open>\<open>dc_parser_set_data\<close> followed by the parser's own \<open>set_data\<close>: bind the blob, reset the cache.\<close>

definition shearwater_predator_parser_set_data ::
  "shearwater_predator_parser_t \<Rightarrow> byte list \<Rightarrow> shearwater_predator_parser_t" where
  "shearwater_predator_parser_set_data parser blob =
     parser\<lparr>sw_data := blob, cached := 0, headersize := 0, footersize := 0, ngasmixes := 0,
            oxygen := replicate NGASMIXES 0, helium := replicate NGASMIXES 0,
            divemode := DC_DIVEMODE_OC\<rparr>"

text \<open>
  The search loop, written twice in the source: inline in the cache pass over the local
  arrays, and as \<open>shearwater_predator_find_gasmix\<close> over the parser's arrays.
\<close>

function gasmix_search :: "nat list \<Rightarrow> nat list \<Rightarrow> nat \<Rightarrow> nat \<Rightarrow> nat \<Rightarrow> nat \<Rightarrow> nat" where
  "gasmix_search ox he n o2 he2 i =
     (if i < n then
        (if o2 = ox ! i \<and> he2 = he ! i then i else gasmix_search ox he n o2 he2 (i + 1))
      else i)"
  by pat_completeness auto
termination
  by (relation "measure (\<lambda>(ox, he, n, o2, he2, i). n - i)") auto

declare gasmix_search.simps [simp del]

definition shearwater_predator_find_gasmix ::
  "shearwater_predator_parser_t \<Rightarrow> nat \<Rightarrow> nat \<Rightarrow> nat" where
  "shearwater_predator_find_gasmix parser o2 he2 =
     gasmix_search (oxygen parser) (helium parser) (ngasmixes parser) o2 he2 0"

text \<open>
  The state of the gas scan of \<open>shearwater_predator_parser_cache\<close>: dive mode, number
  of mixes, the two local arrays and the previous mix.
\<close>

record gas_scan =
  gs_mode :: dc_divemode_t
  gs_ngasmixes :: nat
  gs_oxygen :: "nat list"
  gs_helium :: "nat list"
  gs_o2_previous :: nat
  gs_he_previous :: nat

text \<open>One non-empty sample of the scan, at \<open>offset\<close>.\<close>

definition cache_sample :: "byte list \<Rightarrow> nat \<Rightarrow> gas_scan \<Rightarrow> dc_status + gas_scan" where
  "cache_sample blob offset s =
     (let status = blob ! (offset + 11);
          s1 = (if status AND OC = 0 then s\<lparr>gs_mode := DC_DIVEMODE_CC\<rparr> else s);
          o2 = unat (blob ! (offset + 7));
          he2 = unat (blob ! (offset + 8))
      in if o2 \<noteq> gs_o2_previous s1 \<or> he2 \<noteq> gs_he_previous s1 then
           (let idx = gasmix_search (gs_oxygen s1) (gs_helium s1) (gs_ngasmixes s1) o2 he2 0 in
            if idx \<ge> gs_ngasmixes s1 then
              (if idx \<ge> NGASMIXES then Inl DC_STATUS_NOMEMORY
               else Inr (s1\<lparr>gs_oxygen := (gs_oxygen s1)[idx := o2],
                            gs_helium := (gs_helium s1)[idx := he2],
                            gs_ngasmixes := idx + 1,
                            gs_o2_previous := o2, gs_he_previous := he2\<rparr>))
            else Inr (s1\<lparr>gs_o2_previous := o2, gs_he_previous := he2\<rparr>))
         else Inr s1)"

function cache_loop ::
  "byte list \<Rightarrow> nat \<Rightarrow> nat \<Rightarrow> nat \<Rightarrow> gas_scan \<Rightarrow> dc_status + gas_scan" where
  "cache_loop blob is_petrel offset len s =
     (if offset < len then
        (if array_isequal (drop offset blob) (samplesize is_petrel) 0x00
         then cache_loop blob is_petrel (offset + samplesize is_petrel) len s
         else (case cache_sample blob offset s of
                 Inl e \<Rightarrow> Inl e
               | Inr s' \<Rightarrow> cache_loop blob is_petrel (offset + samplesize is_petrel) len s'))
      else Inr s)"
  by pat_completeness auto
termination
  by (relation "measure (\<lambda>(blob, is_petrel, offset, len, s). len - offset)")
     (auto simp: samplesize_def SZ_SAMPLE_PETREL_def SZ_SAMPLE_PREDATOR_def)

declare cache_loop.simps [simp del]

text \<open>
  The footer size of \<open>shearwater_predator_parser_cache\<close>: one block, and one more for
  the final block of a Petrel dive or of a dive whose last block starts with \<open>0xFFFD\<close>.
\<close>

definition cache_footersize :: "shearwater_predator_parser_t \<Rightarrow> nat" where
  "cache_footersize parser =
     (if petrel parser \<noteq> 0
         \<or> array_uint16_be (drop (length (sw_data parser) - SZ_BLOCK) (sw_data parser)) = 0xFFFD
      then SZ_BLOCK + SZ_BLOCK else SZ_BLOCK)"

definition gas_scan_init :: gas_scan where
  "gas_scan_init =
     \<lparr>gs_mode = DC_DIVEMODE_OC, gs_ngasmixes = 0,
      gs_oxygen = replicate NGASMIXES 0, gs_helium = replicate NGASMIXES 0,
      gs_o2_previous = 0, gs_he_previous = 0\<rparr>"

definition shearwater_predator_parser_cache ::
  "shearwater_predator_parser_t \<Rightarrow> dc_status \<times> shearwater_predator_parser_t" where
  "shearwater_predator_parser_cache parser =
     (let blob = sw_data parser; sz = length blob in
      if cached parser \<noteq> 0 then (DC_STATUS_SUCCESS, parser)
      else if sz < SZ_BLOCK + SZ_BLOCK then (DC_STATUS_DATAFORMAT, parser)
      else if sz < SZ_BLOCK + cache_footersize parser then (DC_STATUS_DATAFORMAT, parser)
      else
        (case cache_loop blob (petrel parser) SZ_BLOCK (sz - cache_footersize parser)
                gas_scan_init of
           Inl e \<Rightarrow> (e, parser)
         | Inr s \<Rightarrow>
             (DC_STATUS_SUCCESS,
              parser\<lparr>sensor_cal_value :=
                        [u32 (array_uint16_be (drop 87 blob) + 1024),
                         u32 (array_uint16_be (drop 89 blob) + 1024),
                         u32 (array_uint16_be (drop 91 blob) + 1024)],
                      sensor_adc_offset :=
                        [sint (blob ! 93), sint (blob ! 94), sint (blob ! 95)],
                      headersize := SZ_BLOCK,
                      footersize := cache_footersize parser,
                      ngasmixes := gs_ngasmixes s,
                      oxygen := take (gs_ngasmixes s) (gs_oxygen s)
                                  @ drop (gs_ngasmixes s) (oxygen parser),
                      helium := take (gs_ngasmixes s) (gs_helium s)
                                  @ drop (gs_ngasmixes s) (helium parser),
                      divemode := gs_mode s,
                      cached := 1\<rparr>)))"

text \<open>
  The state the sample loop carries from one sample to the next: the time and the
  previous mix.
\<close>

record sample_scan =
  ss_time :: nat
  ss_o2_previous :: nat
  ss_he_previous :: nat

text \<open>
  One non-empty sample of \<open>shearwater_predator_parser_samples_foreach\<close>: the samples
  handed to the callback, and the new state or the status of the early return.
\<close>

definition sample_temperature :: "byte \<Rightarrow> int" where
  "sample_temperature b =
     (let t = sint b in
      if t < 0 then (if t + 102 > 0 then 0 else t + 102) else t)"

definition sample_ppo2 ::
  "shearwater_predator_parser_t \<Rightarrow> byte list \<Rightarrow> nat \<Rightarrow> dc_sample list" where
  "sample_ppo2 parser blob offset =
     (if blob ! 86 AND 0x01 \<noteq> 0
      then [DC_SAMPLE_PPO2 (unat (blob ! (offset + 12)) * sensor_cal_value parser ! 0)] else [])
     @ (if blob ! 86 AND 0x02 \<noteq> 0
        then [DC_SAMPLE_PPO2 (unat (blob ! (offset + 14)) * sensor_cal_value parser ! 1)] else [])
     @ (if blob ! 86 AND 0x04 \<noteq> 0
        then [DC_SAMPLE_PPO2 (unat (blob ! (offset + 15)) * sensor_cal_value parser ! 2)] else [])"

definition sample_setpoint ::
  "shearwater_predator_parser_t \<Rightarrow> byte list \<Rightarrow> nat \<Rightarrow> byte \<Rightarrow> dc_sample" where
  "sample_setpoint parser blob offset status =
     DC_SAMPLE_SETPOINT
       (if petrel parser \<noteq> 0 then unat (blob ! (offset + 18))
        else if status AND SETPOINT_HIGH \<noteq> 0 then unat (blob ! 18)
        else unat (blob ! 17))"

definition sample_deco :: "byte list \<Rightarrow> nat \<Rightarrow> dc_sample" where
  "sample_deco blob offset =
     (let decostop = array_uint16_be (drop (offset + 2) blob) in
      if decostop \<noteq> 0
      then DC_SAMPLE_DECO DC_DECO_DECOSTOP (unat (blob ! (offset + 9)) * 60) decostop
      else DC_SAMPLE_DECO DC_DECO_NDL (unat (blob ! (offset + 9)) * 60) 0)"

definition samples_sample ::
  "shearwater_predator_parser_t \<Rightarrow> nat \<Rightarrow> sample_scan \<Rightarrow>
     dc_sample list \<times> (dc_status + sample_scan)" where
  "samples_sample parser offset s =
     (let blob = sw_data parser;
          time = u32 (ss_time s + 10);
          status = blob ! (offset + 11);
          first =
            [DC_SAMPLE_TIME time,
             DC_SAMPLE_DEPTH (array_uint16_be (drop offset blob)),
             DC_SAMPLE_TEMPERATURE (sample_temperature (blob ! (offset + 13)))]
            @ (if status AND OC = 0
               then sample_ppo2 parser blob offset @ [sample_setpoint parser blob offset status]
               else [])
            @ (if petrel parser \<noteq> 0 then [DC_SAMPLE_CNS (unat (blob ! (offset + 22)))] else []);
          o2 = unat (blob ! (offset + 7));
          he2 = unat (blob ! (offset + 8))
      in if o2 \<noteq> ss_o2_previous s \<or> he2 \<noteq> ss_he_previous s then
           (let idx = shearwater_predator_find_gasmix parser o2 he2 in
            if idx \<ge> ngasmixes parser then (first, Inl DC_STATUS_DATAFORMAT)
            else (first @ [DC_SAMPLE_GASMIX idx, sample_deco blob offset],
                  Inr \<lparr>ss_time = time, ss_o2_previous = o2, ss_he_previous = he2\<rparr>))
         else (first @ [sample_deco blob offset], Inr (s\<lparr>ss_time := time\<rparr>)))"

function samples_loop ::
  "shearwater_predator_parser_t \<Rightarrow> nat \<Rightarrow> nat \<Rightarrow> sample_scan \<Rightarrow> dc_status \<times> dc_sample list" where
  "samples_loop parser offset len s =
     (if offset < len then
        (if array_isequal (drop offset (sw_data parser)) (samplesize (petrel parser)) 0x00
         then samples_loop parser (offset + samplesize (petrel parser)) len s
         else (case samples_sample parser offset s of
                 (out, Inl e) \<Rightarrow> (e, out)
               | (out, Inr s') \<Rightarrow>
                   (case samples_loop parser (offset + samplesize (petrel parser)) len s' of
                      (rc, rest) \<Rightarrow> (rc, out @ rest))))
      else (DC_STATUS_SUCCESS, []))"
  by pat_completeness auto
termination
  by (relation "measure (\<lambda>(parser, offset, len, s). len - offset)")
     (auto simp: samplesize_def SZ_SAMPLE_PETREL_def SZ_SAMPLE_PREDATOR_def)

declare samples_loop.simps [simp del]

text \<open>
  \<open>shearwater_predator_parser_samples_foreach\<close> with a callback: the status, the
  samples handed out and the parser with its cache filled.
\<close>

definition shearwater_predator_parser_samples_foreach ::
  "shearwater_predator_parser_t \<Rightarrow>
     dc_status \<times> dc_sample list \<times> shearwater_predator_parser_t" where
  "shearwater_predator_parser_samples_foreach parser =
     (case shearwater_predator_parser_cache parser of
        (rc, parser1) \<Rightarrow>
          if rc \<noteq> DC_STATUS_SUCCESS then (rc, [], parser1)
          else
            (case samples_loop parser1 (headersize parser1)
                    (length (sw_data parser1) - footersize parser1)
                    \<lparr>ss_time = 0, ss_o2_previous = 0, ss_he_previous = 0\<rparr> of
               (rc', out) \<Rightarrow> (rc', out, parser1)))"

text \<open>The \<open>DC_FIELD_GASMIX_COUNT\<close> case of \<open>shearwater_predator_parser_get_field\<close>.\<close>

definition shearwater_get_gasmix_count ::
  "shearwater_predator_parser_t \<Rightarrow> dc_status + nat" where
  "shearwater_get_gasmix_count parser =
     (case shearwater_predator_parser_cache parser of
        (rc, parser1) \<Rightarrow>
          if rc \<noteq> DC_STATUS_SUCCESS then Inl rc else Inr (ngasmixes parser1))"

text \<open>
  The specification's view of the scan: the (O2, He) pairs of the non-empty samples of
  the profile, in order, and the distinct elements of a list in order of first
  appearance.
\<close>

function profile_pairs :: "byte list \<Rightarrow> nat \<Rightarrow> nat \<Rightarrow> nat \<Rightarrow> (nat \<times> nat) list" where
  "profile_pairs blob is_petrel offset len =
     (if offset < len then
        (if array_isequal (drop offset blob) (samplesize is_petrel) 0x00
         then profile_pairs blob is_petrel (offset + samplesize is_petrel) len
         else (unat (blob ! (offset + 7)), unat (blob ! (offset + 8)))
                # profile_pairs blob is_petrel (offset + samplesize is_petrel) len)
      else [])"
  by pat_completeness auto
termination
  by (relation "measure (\<lambda>(blob, is_petrel, offset, len). len - offset)")
     (auto simp: samplesize_def SZ_SAMPLE_PETREL_def SZ_SAMPLE_PREDATOR_def)

declare profile_pairs.simps [simp del]

fun first_occurrences :: "'a list \<Rightarrow> 'a list" where
  "first_occurrences [] = []"
| "first_occurrences (x # xs) = x # first_occurrences (filter (\<lambda>y. y \<noteq> x) xs)"

text \<open>
  The pairs of the non-empty samples of the profile region of the blob bound to a
  parser, between the header block and the footer.
\<close>

definition profile_mixes :: "shearwater_predator_parser_t \<Rightarrow> (nat \<times> nat) list" where
  "profile_mixes parser =
     profile_pairs (sw_data parser) (petrel parser) SZ_BLOCK
       (length (sw_data parser) - cache_footersize parser)"

text \<open>The structural check of the cache pass: the blob holds the header and the footer.\<close>

definition blob_too_short :: "shearwater_predator_parser_t \<Rightarrow> bool" where
  "blob_too_short parser \<longleftrightarrow>
     length (sw_data parser) < SZ_BLOCK + SZ_BLOCK
       \<or> length (sw_data parser) < SZ_BLOCK + cache_footersize parser"

text \<open>The gas-mix table of a parser, as the list of its (O2, He) pairs.\<close>

definition gasmix_table :: "shearwater_predator_parser_t \<Rightarrow> (nat \<times> nat) list" where
  "gasmix_table parser =
     zip (take (ngasmixes parser) (oxygen parser)) (take (ngasmixes parser) (helium parser))"

text \<open>
  Predator blobs for concrete runs: a header block, 16-byte samples and a footer block.
  A sample is given by its O2 and He bytes; it is in open-circuit mode with depth 10.
\<close>

definition demo_sample :: "byte \<Rightarrow> byte \<Rightarrow> byte list" where
  "demo_sample o2 he2 = [0, 10, 0, 0, 0, 0, 0, o2, he2, 0, 0, 0x10, 0, 20, 0, 0]"

definition demo_blob :: "(byte \<times> byte) list \<Rightarrow> byte list" where
  "demo_blob mixes =
     replicate 128 0 @ concat (map (\<lambda>(o2, he2). demo_sample o2 he2) mixes) @ replicate 128 0"

definition demo_parser :: "(byte \<times> byte) list \<Rightarrow> shearwater_predator_parser_t" where
  "demo_parser mixes =
     shearwater_predator_parser_set_data (shearwater_common_parser_create 0 0) (demo_blob mixes)"

text \<open>
  For the proofs: the table held by a scan state, the shape of its arrays, and the
  sub-sequence of a list of pairs that differ from their predecessor (the gas changes),
  \<open>prev\<close> being the pair before the first.
\<close>

definition gs_table :: "gas_scan \<Rightarrow> (nat \<times> nat) list" where
  "gs_table s = zip (take (gs_ngasmixes s) (gs_oxygen s)) (take (gs_ngasmixes s) (gs_helium s))"

definition gs_inv :: "gas_scan \<Rightarrow> bool" where
  "gs_inv s \<longleftrightarrow>
     gs_ngasmixes s \<le> NGASMIXES \<and> length (gs_oxygen s) = NGASMIXES
       \<and> length (gs_helium s) = NGASMIXES"

fun gas_changes :: "(nat \<times> nat) \<Rightarrow> (nat \<times> nat) list \<Rightarrow> (nat \<times> nat) list" where
  "gas_changes prev [] = []"
| "gas_changes prev (p # ps) = (if p \<noteq> prev then p # gas_changes p ps else gas_changes p ps)"

definition pair_at :: "byte list \<Rightarrow> nat \<Rightarrow> nat \<times> nat" where
  "pair_at blob offset = (unat (blob ! (offset + 7)), unat (blob ! (offset + 8)))"

definition gs_previous :: "gas_scan \<Rightarrow> nat \<times> nat" where
  "gs_previous s = (gs_o2_previous s, gs_he_previous s)"

definition ss_previous :: "sample_scan \<Rightarrow> nat \<times> nat" where
  "ss_previous s = (ss_o2_previous s, ss_he_previous s)"

text \<open>The pairs a scan adds to the table \<open>tbl\<close> on the pairs \<open>ps\<close>, the previous pair being \<open>prev\<close>.\<close>

definition new_mixes ::
  "(nat \<times> nat) list \<Rightarrow> (nat \<times> nat) \<Rightarrow> (nat \<times> nat) list \<Rightarrow> (nat \<times> nat) list" where
  "new_mixes tbl prev ps =
     first_occurrences (filter (\<lambda>p. p \<notin> set tbl) (gas_changes prev ps))"

text \<open>
  The list of mixes of the blob bound to a parser: the distinct pairs of the profile in
  order of first appearance, not counting samples with the pair (0, 0) that come before
  the first sample with another pair.
\<close>

definition mix_list :: "shearwater_predator_parser_t \<Rightarrow> (nat \<times> nat) list" where
  "mix_list parser = first_occurrences (dropWhile (\<lambda>p. p = (0, 0)) (profile_mixes parser))"

text \<open>Eleven samples with eleven different mixes.\<close>

definition demo_eleven :: "(byte \<times> byte) list" where
  "demo_eleven =
     [(21, 0), (22, 0), (23, 0), (24, 0), (25, 0), (26, 0), (27, 0), (28, 0), (29, 0),
      (30, 0), (31, 0)]"

section \<open>Enumerating the dives (hw\_ostc3.c, hw\_frog.c)\<close>

text \<open>
  \<open>hw_ostc3_device_foreach\<close> and \<open>hw_frog_device_foreach\<close> run the same three loops
  over the downloaded logbook: locate the most recent dive, walk backwards to find the
  dives that are due, download them. The loops are written once, over the view that
  each family has of a logbook slot; the two functions below instantiate them with the
  family's layout, its transfer function and its handling of erased slots.
\<close>

subsection \<open>Locating the most recent dive\<close>

text \<open>
  The first loop of both functions. \<open>erased i\<close> tells whether slot \<open>i\<close> is all
  \<open>0xFF\<close>, \<open>number i\<close> is its 16-bit dive number. On an erased slot the OSTC3 loop says
  \<open>continue\<close> (\<open>skip = True\<close>) and the Frog loop says \<open>break\<close> (\<open>skip = False\<close>). The
  result is \<open>(count, latest, maximum)\<close>.
\<close>

function locate_latest ::
  "bool \<Rightarrow> (nat \<Rightarrow> bool) \<Rightarrow> (nat \<Rightarrow> nat) \<Rightarrow> nat \<Rightarrow> nat \<times> nat \<times> nat \<Rightarrow> nat \<times> nat \<times> nat" where
  "locate_latest skip erased number i (count, latest, maximum) =
     (if i < RB_LOGBOOK_COUNT then
        (if erased i then
           (if skip then locate_latest skip erased number (i + 1) (count, latest, maximum)
            else (count, latest, maximum))
         else
           (let current = number i in
            if current > maximum
            then locate_latest skip erased number (i + 1) (count + 1, i, current)
            else locate_latest skip erased number (i + 1) (count + 1, latest, maximum)))
      else (count, latest, maximum))"
  by pat_completeness auto
termination
  by (relation "measure (\<lambda>(skip, erased, number, i, acc). RB_LOGBOOK_COUNT - i)") auto

declare locate_latest.simps [simp del]

subsection \<open>Finding the dives that are due\<close>

text \<open>
  The second loop. For the \<open>i\<close>-th slot before the latest one, the family's check
  comes first (the OSTC3 stops the walk at an erased slot, the Frog returns
  \<open>DC_STATUS_DATAFORMAT\<close> for ring-buffer pointers outside the profile area), then the
  length of the dive is computed, then the walk stops when the fingerprint region of the
  slot equals the stored fingerprint. The result is the number of dives that are due and
  the size of the largest one (the total size only feeds the progress event).
\<close>

datatype slot_check = Slot_Ok | Slot_Break | Slot_Error dc_status

definition slot_index :: "nat \<Rightarrow> nat \<Rightarrow> nat" where
  "slot_index latest i = (latest + RB_LOGBOOK_COUNT - i) mod RB_LOGBOOK_COUNT"

function walk_back ::
  "(nat \<Rightarrow> slot_check) \<Rightarrow> (nat \<Rightarrow> nat) \<Rightarrow> (nat \<Rightarrow> bool) \<Rightarrow> nat \<Rightarrow> nat \<Rightarrow> nat \<Rightarrow>
     nat \<times> nat \<Rightarrow> dc_status + nat \<times> nat" where
  "walk_back check dive_length fp_match latest count i (ndives, maxsize) =
     (if i < count then
        (let idx = slot_index latest i in
         case check idx of
           Slot_Break \<Rightarrow> Inr (ndives, maxsize)
         | Slot_Error e \<Rightarrow> Inl e
         | Slot_Ok \<Rightarrow>
             (let len = dive_length idx in
              if fp_match idx then Inr (ndives, maxsize)
              else walk_back check dive_length fp_match latest count (i + 1)
                     (ndives + 1, if len > maxsize then len else maxsize)))
      else Inr (ndives, maxsize))"
  by pat_completeness auto
termination
  by (relation "measure (\<lambda>(check, dive_length, fp_match, latest, count, i, acc). count - i)")
     auto

declare walk_back.simps [simp del]

subsection \<open>Downloading the dives\<close>

text \<open>
  The third loop. \<open>dive_transfer device idx buf\<close> is the family's transfer of the
  \<open>DIVE\<close> command for slot \<open>idx\<close> into the first bytes of the profile buffer. When
  \<open>verify\<close> holds, the first \<open>slot_size\<close> bytes of the profile are compared with the
  logbook entry \<open>slot_header idx\<close>; on a difference the source logs "Unexpected profile
  header", frees its buffers and says \<open>return rc\<close>, with the \<open>rc\<close> of the transfer that
  has just succeeded. The callback gets the dive and its fingerprint and answers whether
  to go on; a \<open>NULL\<close> callback is \<open>None\<close>.

  The result lists the calls made to the callback, in order: the slot and the bytes of
  each dive handed out.
\<close>

type_synonym 'u dc_dive_callback = "'u \<Rightarrow> byte list \<Rightarrow> byte list \<Rightarrow> bool \<times> 'u"

record ('d, 'u) download_state =
  dl_device :: 'd
  dl_profile :: "byte list"
  dl_userdata :: 'u

datatype ('d, 'u) download_step =
    Download_Return dc_status "(nat \<times> byte list) list" "('d, 'u) download_state"
  | Download_Next "(nat \<times> byte list) list" "('d, 'u) download_state"

definition download_dive ::
  "('d \<Rightarrow> nat \<Rightarrow> byte list \<Rightarrow> dc_status \<times> byte list \<times> 'd) \<Rightarrow> bool \<Rightarrow> nat \<Rightarrow>
     (nat \<Rightarrow> byte list) \<Rightarrow> (nat \<Rightarrow> nat) \<Rightarrow> nat \<Rightarrow> 'u dc_dive_callback option \<Rightarrow>
     nat \<Rightarrow> ('d, 'u) download_state \<Rightarrow> ('d, 'u) download_step" where
  "download_dive dive_transfer verify slot_size slot_header dive_length fp_offset callback idx s =
     (let len = dive_length idx in
      case dive_transfer (dl_device s) idx (take len (dl_profile s)) of
        (rc, out, device1) \<Rightarrow>
          (let profile1 = out @ drop len (dl_profile s);
               s1 = s\<lparr>dl_device := device1, dl_profile := profile1\<rparr>
           in if rc \<noteq> DC_STATUS_SUCCESS then Download_Return rc [] s1
              else if verify \<and> take slot_size profile1 \<noteq> slot_header idx
              then Download_Return rc [] s1
              else
                (case callback of
                   None \<Rightarrow> Download_Next [] s1
                 | Some cb \<Rightarrow>
                     (case cb (dl_userdata s) (take len profile1)
                             (take 5 (drop fp_offset profile1)) of
                        (go_on, userdata1) \<Rightarrow>
                          if \<not> go_on
                          then Download_Return DC_STATUS_SUCCESS [(idx, take len profile1)]
                                 (s1\<lparr>dl_userdata := userdata1\<rparr>)
                          else Download_Next [(idx, take len profile1)]
                                 (s1\<lparr>dl_userdata := userdata1\<rparr>)))))"

function download_dives ::
  "(nat \<Rightarrow> ('d, 'u) download_state \<Rightarrow> ('d, 'u) download_step) \<Rightarrow> nat \<Rightarrow> nat \<Rightarrow> nat \<Rightarrow>
     ('d, 'u) download_state \<Rightarrow> dc_status \<times> (nat \<times> byte list) list \<times> ('d, 'u) download_state" where
  "download_dives dive latest ndives i s =
     (if i < ndives then
        (case dive (slot_index latest i) s of
           Download_Return rc calls s1 \<Rightarrow> (rc, calls, s1)
         | Download_Next calls s1 \<Rightarrow>
             (case download_dives dive latest ndives (i + 1) s1 of
                (rc, rest, s2) \<Rightarrow> (rc, calls @ rest, s2)))
      else (DC_STATUS_SUCCESS, [], s))"
  by pat_completeness auto
termination
  by (relation "measure (\<lambda>(dive, latest, ndives, i, s). ndives - i)") auto

declare download_dives.simps [simp del]

text \<open>
  The three loops in sequence, as both functions run them once the logbook is in memory.
  Nothing is downloaded when no dive is due.
\<close>

definition enumerate_dives ::
  "bool \<Rightarrow> (nat \<Rightarrow> bool) \<Rightarrow> (nat \<Rightarrow> nat) \<Rightarrow> (nat \<Rightarrow> slot_check) \<Rightarrow> (nat \<Rightarrow> nat) \<Rightarrow>
     (nat \<Rightarrow> bool) \<Rightarrow> (nat \<Rightarrow> ('d, 'u) download_state \<Rightarrow> ('d, 'u) download_step) \<Rightarrow>
     'd \<Rightarrow> 'u \<Rightarrow> dc_status \<times> (nat \<times> byte list) list \<times> 'd \<times> 'u" where
  "enumerate_dives skip erased number check dive_length fp_match dive device userdata =
     (case locate_latest skip erased number 0 (0, 0, 0) of
        (count, latest, maximum) \<Rightarrow>
          (case walk_back check dive_length fp_match latest count 0 (0, 0) of
             Inl e \<Rightarrow> (e, [], device, userdata)
           | Inr (ndives, maxsize) \<Rightarrow>
               if ndives = 0 then (DC_STATUS_SUCCESS, [], device, userdata)
               else
                 (case download_dives dive latest ndives 0
                         \<lparr>dl_device = device, dl_profile = replicate maxsize 0,
                          dl_userdata = userdata\<rparr> of
                    (rc, calls, s) \<Rightarrow> (rc, calls, dl_device s, dl_userdata s))))"

subsection \<open>OSTC3\<close>

definition hw_ostc3_slot :: "hw_ostc3_logbook_t \<Rightarrow> byte list \<Rightarrow> nat \<Rightarrow> byte list" where
  "hw_ostc3_slot logbook header idx = take (lb_size logbook) (drop (idx * lb_size logbook) header)"

definition hw_ostc3_erased :: "hw_ostc3_logbook_t \<Rightarrow> byte list \<Rightarrow> nat \<Rightarrow> bool" where
  "hw_ostc3_erased logbook header idx =
     array_isequal (drop (idx * lb_size logbook) header) (lb_size logbook) 0xFF"

definition hw_ostc3_number :: "hw_ostc3_logbook_t \<Rightarrow> byte list \<Rightarrow> nat \<Rightarrow> nat" where
  "hw_ostc3_number logbook header idx =
     array_uint16_le (drop (idx * lb_size logbook + lb_number logbook) header)"

text \<open>The profile length, with the workaround for firmware older than 93 in full mode.\<close>

definition hw_ostc3_length :: "bool \<Rightarrow> hw_ostc3_logbook_t \<Rightarrow> byte list \<Rightarrow> nat \<Rightarrow> nat" where
  "hw_ostc3_length compact logbook header idx =
     (let offset = idx * lb_size logbook;
          len = RB_LOGBOOK_SIZE_FULL
                  + array_uint24_le (drop (offset + lb_profile logbook) header) - 3
      in if \<not> compact \<and> array_uint16_be (drop (offset + 0x30) header) < 93
         then len - 3 else len)"

definition hw_ostc3_fp_match ::
  "hw_ostc3_logbook_t \<Rightarrow> byte list \<Rightarrow> byte list \<Rightarrow> nat \<Rightarrow> bool" where
  "hw_ostc3_fp_match logbook header fp idx =
     (take 5 (drop (idx * lb_size logbook + lb_fingerprint logbook) header) = fp)"

definition hw_ostc3_dive_transfer ::
  "'c serial_ops \<Rightarrow> 'c hw_ostc3_device_t \<Rightarrow> nat \<Rightarrow> byte list \<Rightarrow>
     dc_status \<times> byte list \<times> 'c hw_ostc3_device_t" where
  "hw_ostc3_dive_transfer ops device idx buf =
     hw_ostc3_transfer ops device DIVE (Some [of_nat idx]) buf"

text \<open>
  The part of \<open>hw_ostc3_device_foreach\<close> that follows the download of the logbook
  (\<open>compact\<close> tells which layout was downloaded).
\<close>

definition hw_ostc3_foreach_dives ::
  "'c serial_ops \<Rightarrow> 'c hw_ostc3_device_t \<Rightarrow> bool \<Rightarrow> byte list \<Rightarrow> 'u dc_dive_callback option \<Rightarrow>
     'u \<Rightarrow> dc_status \<times> (nat \<times> byte list) list \<times> 'c hw_ostc3_device_t \<times> 'u" where
  "hw_ostc3_foreach_dives ops device compact header callback userdata =
     (let logbook = (if compact then hw_ostc3_logbook_compact else hw_ostc3_logbook_full) in
      enumerate_dives True
        (hw_ostc3_erased logbook header)
        (hw_ostc3_number logbook header)
        (\<lambda>idx. if hw_ostc3_erased logbook header idx then Slot_Break else Slot_Ok)
        (hw_ostc3_length compact logbook header)
        (hw_ostc3_fp_match logbook header (fingerprint device))
        (download_dive (hw_ostc3_dive_transfer ops) (\<not> compact) (lb_size logbook)
           (hw_ostc3_slot logbook header) (hw_ostc3_length compact logbook header) 12 callback)
        device userdata)"

definition hw_ostc3_device_foreach ::
  "'c serial_ops \<Rightarrow> 'c hw_ostc3_device_t \<Rightarrow> 'u dc_dive_callback option \<Rightarrow> 'u \<Rightarrow>
     dc_status \<times> (nat \<times> byte list) list \<times> 'c hw_ostc3_device_t \<times> 'u" where
  "hw_ostc3_device_foreach ops device callback userdata =
     (case hw_ostc3_device_init ops device DOWNLOAD of
        (rc, device1) \<Rightarrow>
          if rc \<noteq> DC_STATUS_SUCCESS then (rc, [], device1, userdata)
          else
     (case hw_ostc3_device_version ops device1 (replicate SZ_VERSION 0) of
        (rc, ident, device2) \<Rightarrow>
          if rc \<noteq> DC_STATUS_SUCCESS then (rc, [], device2, userdata)
          else
     (case hw_ostc3_device_hardware ops device2 (replicate SZ_HARDWARE 0) of
        (rc, hardware, device3) \<Rightarrow>
          if rc \<noteq> DC_STATUS_SUCCESS \<and> rc \<noteq> DC_STATUS_UNSUPPORTED
          then (rc, [], device3, userdata)
          else
     (let header0 = replicate (RB_LOGBOOK_SIZE_FULL * RB_LOGBOOK_COUNT) 0;
          csize = RB_LOGBOOK_SIZE_COMPACT * RB_LOGBOOK_COUNT
      in case hw_ostc3_transfer ops device3 COMPACT None (take csize header0) of
        (rc, out, device4) \<Rightarrow>
          (let header1 = out @ drop csize header0 in
           if rc = DC_STATUS_UNSUPPORTED then
             (case hw_ostc3_transfer ops device4 HEADER None header1 of
                (rc', header2, device5) \<Rightarrow>
                  if rc' \<noteq> DC_STATUS_SUCCESS then (rc', [], device5, userdata)
                  else hw_ostc3_foreach_dives ops device5 False header2 callback userdata)
           else if rc \<noteq> DC_STATUS_SUCCESS then (rc, [], device4, userdata)
           else hw_ostc3_foreach_dives ops device4 True header1 callback userdata)))))"

subsection \<open>Frog\<close>

definition RB_LOGBOOK_SIZE :: nat where "RB_LOGBOOK_SIZE = 256"
definition RB_PROFILE_BEGIN :: nat where "RB_PROFILE_BEGIN = 0x000000"
definition RB_PROFILE_END :: nat where "RB_PROFILE_END = 0x200000"
definition FROG_SZ_VERSION :: nat where "FROG_SZ_VERSION = 17"

text \<open>
  Modelled from the spec: \<open>ringbuffer_distance\<close> of ringbuffer.c,
  \<open>distance(a, b, inclusive, begin, end) = ((b - a) mod N) + inclusive\<close> with
  \<open>N = end - begin\<close>.
\<close>

definition ringbuffer_distance :: "nat \<Rightarrow> nat \<Rightarrow> nat \<Rightarrow> nat \<Rightarrow> nat \<Rightarrow> nat" where
  "ringbuffer_distance a b inclusive rb_begin rb_end =
     nat ((int b - int a) mod (int rb_end - int rb_begin)) + inclusive"

definition RB_PROFILE_DISTANCE :: "nat \<Rightarrow> nat \<Rightarrow> nat" where
  "RB_PROFILE_DISTANCE a b = ringbuffer_distance a b 0 RB_PROFILE_BEGIN RB_PROFILE_END"

record 'c hw_frog_device_t =
  frog_port :: 'c
  frog_fingerprint :: "byte list"

text \<open>
  \<open>hw_frog_transfer\<close>: the echo is not read for \<open>INIT\<close> and \<open>HEADER\<close>, a wrong echo
  is a protocol error, and the ready byte is always \<open>READY\<close>.
\<close>

definition hw_frog_transfer ::
  "'c serial_ops \<Rightarrow> 'c hw_frog_device_t \<Rightarrow> byte \<Rightarrow> byte list option \<Rightarrow> byte list \<Rightarrow>
     dc_status \<times> byte list \<times> 'c hw_frog_device_t" where
  "hw_frog_transfer ops device cmd inp out =
     (if ops_cancelled ops (frog_port device) then (DC_STATUS_CANCELLED, out, device)
      else
        (case ops_write ops (frog_port device) [cmd] of
           (n, port1) \<Rightarrow>
             if n \<noteq> 1 then (EXITCODE n, out, device\<lparr>frog_port := port1\<rparr>)
             else
               (case (if cmd \<noteq> INIT \<and> cmd \<noteq> HEADER then
                        (case ops_read ops port1 1 of
                           ((n', bytes), port2) \<Rightarrow>
                             if n' \<noteq> 1 then (Some (EXITCODE n'), port2)
                             else if read_buffer [0] bytes \<noteq> [cmd]
                             then (Some DC_STATUS_PROTOCOL, port2)
                             else (None, port2))
                      else (None, port1)) of
                  (Some e, port2) \<Rightarrow> (e, out, device\<lparr>frog_port := port2\<rparr>)
                | (None, port2) \<Rightarrow>
                    (case transfer_data ops port2 cmd READY inp out of
                       (rc, out', port3) \<Rightarrow> (rc, out', device\<lparr>frog_port := port3\<rparr>)))))"

definition hw_frog_device_set_fingerprint ::
  "'c hw_frog_device_t \<Rightarrow> byte list \<Rightarrow> nat \<Rightarrow> dc_status \<times> 'c hw_frog_device_t" where
  "hw_frog_device_set_fingerprint device data n =
     (if n \<noteq> 0 \<and> n \<noteq> 5 then (DC_STATUS_INVALIDARGS, device)
      else if n \<noteq> 0 then (DC_STATUS_SUCCESS, device\<lparr>frog_fingerprint := take 5 data\<rparr>)
      else (DC_STATUS_SUCCESS, device\<lparr>frog_fingerprint := replicate 5 0\<rparr>))"

definition hw_frog_slot :: "byte list \<Rightarrow> nat \<Rightarrow> byte list" where
  "hw_frog_slot header idx = take RB_LOGBOOK_SIZE (drop (idx * RB_LOGBOOK_SIZE) header)"

definition hw_frog_erased :: "byte list \<Rightarrow> nat \<Rightarrow> bool" where
  "hw_frog_erased header idx =
     array_isequal (drop (idx * RB_LOGBOOK_SIZE) header) RB_LOGBOOK_SIZE 0xFF"

definition hw_frog_number :: "byte list \<Rightarrow> nat \<Rightarrow> nat" where
  "hw_frog_number header idx = array_uint16_le (drop (idx * RB_LOGBOOK_SIZE + 52) header)"

definition hw_frog_begin :: "byte list \<Rightarrow> nat \<Rightarrow> nat" where
  "hw_frog_begin header idx = array_uint24_le (drop (idx * RB_LOGBOOK_SIZE + 2) header)"

definition hw_frog_end :: "byte list \<Rightarrow> nat \<Rightarrow> nat" where
  "hw_frog_end header idx = array_uint24_le (drop (idx * RB_LOGBOOK_SIZE + 5) header)"

definition hw_frog_pointers :: "byte list \<Rightarrow> nat \<Rightarrow> slot_check" where
  "hw_frog_pointers header idx =
     (if hw_frog_begin header idx < RB_PROFILE_BEGIN
         \<or> hw_frog_begin header idx \<ge> RB_PROFILE_END
         \<or> hw_frog_end header idx < RB_PROFILE_BEGIN
         \<or> hw_frog_end header idx \<ge> RB_PROFILE_END
      then Slot_Error DC_STATUS_DATAFORMAT else Slot_Ok)"

definition hw_frog_length :: "byte list \<Rightarrow> nat \<Rightarrow> nat" where
  "hw_frog_length header idx =
     RB_LOGBOOK_SIZE + RB_PROFILE_DISTANCE (hw_frog_begin header idx) (hw_frog_end header idx) - 6"

definition hw_frog_fp_match :: "byte list \<Rightarrow> byte list \<Rightarrow> nat \<Rightarrow> bool" where
  "hw_frog_fp_match header fp idx = (take 5 (drop (idx * RB_LOGBOOK_SIZE + 9) header) = fp)"

definition hw_frog_dive_transfer ::
  "'c serial_ops \<Rightarrow> 'c hw_frog_device_t \<Rightarrow> nat \<Rightarrow> byte list \<Rightarrow>
     dc_status \<times> byte list \<times> 'c hw_frog_device_t" where
  "hw_frog_dive_transfer ops device idx buf =
     hw_frog_transfer ops device DIVE (Some [of_nat idx]) buf"

definition hw_frog_foreach_dives ::
  "'c serial_ops \<Rightarrow> 'c hw_frog_device_t \<Rightarrow> byte list \<Rightarrow> 'u dc_dive_callback option \<Rightarrow> 'u \<Rightarrow>
     dc_status \<times> (nat \<times> byte list) list \<times> 'c hw_frog_device_t \<times> 'u" where
  "hw_frog_foreach_dives ops device header callback userdata =
     enumerate_dives False
       (hw_frog_erased header)
       (hw_frog_number header)
       (hw_frog_pointers header)
       (hw_frog_length header)
       (hw_frog_fp_match header (frog_fingerprint device))
       (download_dive (hw_frog_dive_transfer ops) True RB_LOGBOOK_SIZE
          (hw_frog_slot header) (hw_frog_length header) 9 callback)
       device userdata"

definition hw_frog_device_foreach ::
  "'c serial_ops \<Rightarrow> 'c hw_frog_device_t \<Rightarrow> 'u dc_dive_callback option \<Rightarrow> 'u \<Rightarrow>
     dc_status \<times> (nat \<times> byte list) list \<times> 'c hw_frog_device_t \<times> 'u" where
  "hw_frog_device_foreach ops device callback userdata =
     (case hw_frog_transfer ops device IDENTITY None (replicate FROG_SZ_VERSION 0) of
        (rc, ident, device1) \<Rightarrow>
          if rc \<noteq> DC_STATUS_SUCCESS then (rc, [], device1, userdata)
          else
            (case hw_frog_transfer ops device1 HEADER None
                    (replicate (RB_LOGBOOK_SIZE * RB_LOGBOOK_COUNT) 0) of
               (rc', header, device2) \<Rightarrow>
                 if rc' \<noteq> DC_STATUS_SUCCESS then (rc', [], device2, userdata)
                 else hw_frog_foreach_dives ops device2 header callback userdata))"

subsection \<open>What the first loop computes\<close>

text \<open>
  \<open>located erased number m (count, latest, maximum)\<close>: the triple is what a scan of
  the slots below \<open>m\<close> leaves. \<open>count\<close> is the number of slots that are not erased,
  \<open>maximum\<close> bounds their numbers; when it is positive, \<open>latest\<close> is the lowest of the
  slots that are not erased and carry it, otherwise \<open>latest\<close> is 0.
\<close>

definition located ::
  "(nat \<Rightarrow> bool) \<Rightarrow> (nat \<Rightarrow> nat) \<Rightarrow> nat \<Rightarrow> nat \<times> nat \<times> nat \<Rightarrow> bool" where
  "located erased number m acc \<longleftrightarrow>
     (case acc of
        (count, latest, maximum) \<Rightarrow>
          count = card {j. j < m \<and> \<not> erased j}
          \<and> (\<forall>j < m. \<not> erased j \<longrightarrow> number j \<le> maximum)
          \<and> (maximum > 0 \<longrightarrow>
                latest < m \<and> \<not> erased latest \<and> number latest = maximum
                \<and> (\<forall>j < latest. \<not> erased j \<longrightarrow> number j < maximum))
          \<and> (maximum = 0 \<longrightarrow> latest = 0))"

subsection \<open>Logbooks for concrete runs\<close>

text \<open>
  A Frog logbook entry with dive number \<open>n\<close>: profile pointers 0 and 6 (a dive that is
  its 256-byte header), the fingerprint \<open>n 1 1 1 1\<close> at offset 9 and the number at
  offset 52. An OSTC3 compact entry with dive number \<open>n\<close>: profile size 3 (a dive of 256
  bytes), the fingerprint \<open>n 1 1 1 1\<close> at offset 3 and the number at offset 13.
\<close>

definition demo_frog_entry :: "byte \<Rightarrow> byte list" where
  "demo_frog_entry n =
     [0, 0, 0, 0, 0, 6, 0, 0, 0, n, 1, 1, 1, 1] @ replicate 38 0 @ [n, 0] @ replicate 202 0"

definition demo_ostc3_entry :: "byte \<Rightarrow> byte list" where
  "demo_ostc3_entry n = [3, 0, 0, n, 1, 1, 1, 1, 0, 0, 0, 0, 0, n, 0, 0]"

text \<open>Dives numbered 7, 5 and 9 in slots 0, 1 and 2; the other slots are erased.\<close>

definition demo_frog_logbook :: "byte list" where
  "demo_frog_logbook =
     demo_frog_entry 7 @ demo_frog_entry 5 @ demo_frog_entry 9 @ replicate (253 * 256) 0xFF"

definition demo_ostc3_logbook :: "byte list" where
  "demo_ostc3_logbook =
     demo_ostc3_entry 7 @ demo_ostc3_entry 5 @ demo_ostc3_entry 9 @ replicate (253 * 16) 0xFF
       @ replicate (240 * 256) 0"

text \<open>Dive 1 in slot 0, an erased slot 1, dive 5 in slot 2; the other slots are erased.\<close>

definition demo_frog_logbook_gap :: "byte list" where
  "demo_frog_logbook_gap =
     demo_frog_entry 1 @ replicate 256 0xFF @ demo_frog_entry 5 @ replicate (253 * 256) 0xFF"

text \<open>The same dives in an OSTC3 compact logbook.\<close>

definition demo_ostc3_logbook_gap :: "byte list" where
  "demo_ostc3_logbook_gap =
     demo_ostc3_entry 1 @ replicate 16 0xFF @ demo_ostc3_entry 5 @ replicate (253 * 16) 0xFF
       @ replicate (240 * 256) 0"

text \<open>
  A callback that accepts every dive, and the 256 bytes an OSTC3 sends for a dive with
  fingerprint \<open>n 1 1 1 1\<close> at offset 12.
\<close>

definition demo_callback :: "unit dc_dive_callback" where
  "demo_callback userdata dive fp = (True, userdata)"

definition demo_ostc3_dive :: "byte \<Rightarrow> byte list" where
  "demo_ostc3_dive n = replicate 12 0 @ [n, 1, 1, 1, 1] @ replicate 239 0"

section \<open>Suunto D9 parser (suunto\_d9\_parser.c)\<close>





definition SAMPLE_EVENT_ASCENT :: nat where "SAMPLE_EVENT_ASCENT = 3"
definition SAMPLE_EVENT_CEILING :: nat where "SAMPLE_EVENT_CEILING = 4"
definition SAMPLE_EVENT_PO2 :: nat where "SAMPLE_EVENT_PO2 = 20"






subsection \<open>The cache pass\<close>







subsection \<open>The sample configuration\<close>





subsection \<open>One sample\<close>



subsection \<open>Events\<close>








subsection \<open>The sample loop\<close>










section \<open>Oceanic Atom2 parser: the samples (oceanic\_atom2\_parser.c)\<close>








subsection \<open>The cache pass\<close>





subsection \<open>The layout of the samples\<close>






subsection \<open>One sample\<close>











subsection \<open>The sample loop\<close>






section \<open>Atomics Cobalt parser: the samples (atomics\_cobalt\_parser.c)\<close>

definition SZ_HEADER :: nat where "SZ_HEADER = 228"
definition SZ_GASMIX :: nat where "SZ_GASMIX = 18"
definition SZ_GASSWITCH :: nat where "SZ_GASSWITCH = 6"
definition SZ_SEGMENT :: nat where "SZ_SEGMENT = 16"

text \<open>
  The parser object adds to the blob the two values of the depth calibration, which
  enter the conversion of the depth to metres only; the depth is kept here as the
  integer read from the blob, so the functions below take the blob.
\<close>

text \<open>
  The search for the primary tank, the first gas mix whose sensor is 1, from \<open>tank\<close>
  on: the index found, or the number \<open>n\<close> of gas mixes.
\<close>

function cobalt_primary_tank :: "byte list \<Rightarrow> nat \<Rightarrow> nat \<Rightarrow> nat" where
  "cobalt_primary_tank data n tank =
     (if tank < n then
        (if array_uint16_le (drop (SZ_HEADER + SZ_GASMIX * tank + 12) data) = 1 then tank
         else cobalt_primary_tank data n (tank + 1))
      else tank)"
  by pat_completeness auto
termination
  by (relation "measure (\<lambda>(data, n, tank). n - tank)") auto

declare cobalt_primary_tank.simps [simp del]

text \<open>The search for the gas mix with the identifier \<open>gasmix\<close>, from \<open>idx\<close> on.\<close>

function cobalt_gasmix_index :: "byte list \<Rightarrow> nat \<Rightarrow> nat \<Rightarrow> nat \<Rightarrow> nat" where
  "cobalt_gasmix_index data n gasmix idx =
     (if idx < n then
        (if unat (data ! (SZ_HEADER + SZ_GASMIX * idx + 0)) = gasmix then idx
         else cobalt_gasmix_index data n gasmix (idx + 1))
      else idx)"
  by pat_completeness auto
termination
  by (relation "measure (\<lambda>(data, n, gasmix, idx). n - idx)") auto

declare cobalt_gasmix_index.simps [simp del]

text \<open>
  The state that the sample loop carries from one iteration to the next; \<open>time\<close> is an
  \<open>unsigned int\<close> that the loop adds to, kept modulo \<open>2 ^ 32\<close>.
\<close>

record cobalt_state =
  cb_offset :: nat
  cb_time :: nat
  cb_in_deco :: nat
  cb_gasmix_previous :: nat

text \<open>
  One segment of \<open>atomics_cobalt_parser_samples_foreach\<close>, up to the statement
  \<open>offset += SZ_SEGMENT\<close>, which is left to the loop: the samples handed out, and the
  new state or the status of the early return.
\<close>

definition cobalt_sample ::
  "byte list \<Rightarrow> nat \<Rightarrow> nat \<Rightarrow> nat \<Rightarrow> cobalt_state
     \<Rightarrow> dc_sample list \<times> (dc_status + cobalt_state)" where
  "cobalt_sample data interval n tank s =
     (let offset = cb_offset s;
          tm = u32 (cb_time s + interval);
          out0 = [DC_SAMPLE_TIME tm,
                  DC_SAMPLE_DEPTH (array_uint16_le (drop (offset + 0) data)),
                  DC_SAMPLE_PRESSURE tank (array_uint16_le (drop (offset + 2) data))];
          gasmix = unat (data ! (offset + 4));
          idx = cobalt_gasmix_index data n gasmix 0
      in if gasmix \<noteq> cb_gasmix_previous s \<and> idx \<ge> n
         then (out0, Inl DC_STATUS_DATAFORMAT)
         else
           (let out1 = (if gasmix \<noteq> cb_gasmix_previous s then [DC_SAMPLE_GASMIX idx] else []);
                out2 = [DC_SAMPLE_TEMPERATURE (int (unat (data ! (offset + 8))))];
                violation = data ! (offset + 11);
                out3 = (if violation AND 0x01 \<noteq> 0
                        then [DC_SAMPLE_EVENT SAMPLE_EVENT_ASCENT 0 0 0] else [])
                     @ (if violation AND 0x04 \<noteq> 0
                        then [DC_SAMPLE_EVENT SAMPLE_EVENT_CEILING 0 0 0] else [])
                     @ (if violation AND 0x08 \<noteq> 0
                        then [DC_SAMPLE_EVENT SAMPLE_EVENT_PO2 0 0 0] else []);
                ndl = unat (data ! (offset + 5)) * 60;
                in_deco = (if ndl > 0 then 0
                           else if ndl = 0 \<and> violation AND 0x02 \<noteq> 0 then 1
                           else cb_in_deco s)
            in (out0 @ out1 @ out2 @ out3
                  @ [DC_SAMPLE_DECO (if in_deco \<noteq> 0 then DC_DECO_DECOSTOP else DC_DECO_NDL)
                       ndl 0],
                Inr (s\<lparr>cb_time := tm, cb_in_deco := in_deco, cb_gasmix_previous := gasmix\<rparr>))))"

text \<open>\<open>while (offset + SZ_SEGMENT <= size)\<close>.\<close>

function cobalt_samples_loop ::
  "byte list \<Rightarrow> nat \<Rightarrow> nat \<Rightarrow> nat \<Rightarrow> cobalt_state \<Rightarrow> dc_status \<times> dc_sample list" where
  "cobalt_samples_loop data interval n tank s =
     (if cb_offset s + SZ_SEGMENT \<le> length data then
        (case cobalt_sample data interval n tank s of
           (out, Inl e) \<Rightarrow> (e, out)
         | (out, Inr s') \<Rightarrow>
             (case cobalt_samples_loop data interval n tank
                     (s'\<lparr>cb_offset := cb_offset s + SZ_SEGMENT\<rparr>) of
                (rc, rest) \<Rightarrow> (rc, out @ rest)))
      else (DC_STATUS_SUCCESS, []))"
  by pat_completeness auto
termination
  by (relation "measure (\<lambda>(data, interval, n, tank, s). length data + 1 - cb_offset s)")
     (auto simp: SZ_SEGMENT_def)

declare cobalt_samples_loop.simps [simp del]

text \<open>
  \<open>atomics_cobalt_parser_samples_foreach\<close> with a callback: the status and the samples
  handed out.
\<close>

definition atomics_cobalt_parser_samples_foreach :: "byte list \<Rightarrow> dc_status \<times> dc_sample list" where
  "atomics_cobalt_parser_samples_foreach data =
     (let sz = length data in
      if sz < SZ_HEADER then (DC_STATUS_DATAFORMAT, [])
      else
        (let interval = unat (data ! 0x1a);
             n = unat (data ! 0x2a);
             nswitches = unat (data ! 0x2b);
             nsegments = array_uint16_le (drop 0x50 data);
             header = SZ_HEADER + SZ_GASMIX * n + SZ_GASSWITCH * nswitches
         in if sz < header + SZ_SEGMENT * nsegments then (DC_STATUS_DATAFORMAT, [])
            else
              (let tank = cobalt_primary_tank data n 0
               in if tank \<ge> n then (DC_STATUS_DATAFORMAT, [])
                  else cobalt_samples_loop data interval n tank
                         \<lparr>cb_offset = header, cb_time = 0, cb_in_deco = 0,
                          cb_gasmix_previous = 0xFFFFFFFF\<rparr>)))"

text \<open>
  A Cobalt dive for concrete runs: the header with an interval of 10 seconds and one gas
  mix, the gas mix with identifier 0 and sensor 1, and two segments with the depths
  1500 and 2000.
\<close>

definition demo_cobalt_blob :: "byte list" where
  "demo_cobalt_blob =
     replicate 26 0 @ [10] @ replicate 15 0 @ [1, 0] @ replicate 36 0 @ [2, 0]
       @ replicate 146 0
       @ replicate 12 0 @ [1, 0] @ replicate 4 0
       @ [0xDC, 0x05] @ replicate 14 0
       @ [0xD0, 0x07] @ replicate 14 0"

section \<open>Time samples\<close>

text \<open>
  The times of \<open>n\<close> successive samples after time \<open>t\<close>, \<open>interval\<close> seconds apart, as
  \<open>unsigned int\<close> arithmetic computes them: \<open>t + interval\<close>, \<open>t + 2 * interval\<close>, and so
  on, modulo \<open>2 ^ 32\<close>.
\<close>

definition time_steps :: "nat \<Rightarrow> nat \<Rightarrow> nat \<Rightarrow> nat list" where
  "time_steps t interval n = map (\<lambda>k. u32 (t + k * interval)) [1..<Suc n]"

section \<open>Verification\<close>

subsection \<open>Firmware checksum\<close>

lemma ucast_16_32: "(ucast (word_of_nat n :: 16 word) :: 32 word) = word_of_nat (n mod 65536)"
proof -
  have "(ucast (word_of_nat n :: 16 word) :: 32 word) = word_of_nat (unat (word_of_nat n :: 16 word))"
    by simp
  also have "unat (word_of_nat n :: 16 word) = n mod 65536"
    by (simp add: unat_of_nat)
  finally show ?thesis .
qed

lemma shift_or: "push_bit 16 (ucast (h :: 16 word) :: 32 word) + ucast (l :: 16 word) = push_bit 16 (ucast h) OR ucast l"
  by (rule disjunctive_add) (auto simp: bit_simps dest: bit_imp_le_length)

lemma upt_shift: "[1..<Suc (Suc n)] = 1 # map Suc [1..<Suc n]"
  by (metis One_nat_def Suc_le_mono map_Suc_upt upt_conv_Cons zero_less_Suc less_eq_Suc_le)

lemma checksum_loop_sums:
  "checksum_loop bs (word_of_nat l) (word_of_nat h) =
     (word_of_nat (l + sum_list (map unat bs)),
      word_of_nat (h + (\<Sum>k\<leftarrow>[1..<Suc (length bs)]. l + sum_list (map unat (take k bs)))))"
proof (induction bs arbitrary: l h)
  case Nil
  show ?case by simp
next
  case (Cons b bs)
  have low: "(word_of_nat l :: 16 word) + ucast b = word_of_nat (l + unat b)"
    by simp
  have high: "(word_of_nat h :: 16 word) + word_of_nat (l + unat b) = word_of_nat (h + (l + unat b))"
    by simp
  show ?case
    apply (simp only: checksum_loop.simps Let_def low high Cons.IH)
    apply (simp only: length_Cons upt_shift)
    apply (simp add: comp_def add.assoc)
    done
qed

lemma checksum_formula:
  "hw_ostc3_firmware_checksum img =
     push_bit 16 (word_of_nat (fletcher_high img)) OR word_of_nat (fletcher_low img)"
proof -
  have "checksum_loop img 0 0 =
      (word_of_nat (sum_list (map unat img)),
       word_of_nat (\<Sum>k\<leftarrow>[1..<Suc (length img)]. sum_list (map unat (take k img))))"
    using checksum_loop_sums [of img 0 0] by simp
  then show ?thesis
    by (simp add: hw_ostc3_firmware_checksum_def shift_or ucast_16_32
        fletcher_low_def fletcher_high_def)
qed

lemma checksum_example: "hw_ostc3_firmware_checksum [0x01, 0x02, 0x03] = 0x000A0006"
  by (simp add: hw_ostc3_firmware_checksum_def)

text \<open>
  Claim C7. The firmware checksum is \<open>(high << 16) | low\<close>, where \<open>low\<close> is the sum of
  the image bytes and \<open>high\<close> the sum of the running prefix sums, both modulo \<open>2 ^ 16\<close>;
  the bytes \<open>01 02 03\<close> give \<open>0x000A0006\<close>; and when every line of a firmware file has
  been read, a tail whose little-endian value differs from that checksum makes the
  loader return \<open>DC_STATUS_DATAFORMAT\<close>. The loader of the source is the instance
  \<open>sz = SZ_FIRMWARE\<close> (\<open>hw_ostc3_firmware_readfile_def\<close>).
\<close>

theorem firmware_checksum_fletcher:
  "hw_ostc3_firmware_checksum img =
     push_bit 16 (word_of_nat (fletcher_high img)) OR word_of_nat (fletcher_low img)
   \<and> hw_ostc3_firmware_checksum [0x01, 0x02, 0x03] = 0x000A0006
   \<and> (hw_ostc3_firmware_load sz aes f = Inr (img, tail)
        \<and> array_uint32_le tail \<noteq>
            (push_bit 16 (word_of_nat (fletcher_high img)) OR word_of_nat (fletcher_low img))
      \<longrightarrow> hw_ostc3_firmware_readfile_sz sz aes f = DC_STATUS_DATAFORMAT)"
  using checksum_formula [of img] checksum_example
  by (simp add: hw_ostc3_firmware_readfile_sz_def)

lemma replicate_16: "replicate 16 x = [x, x, x, x, x, x, x, x, x, x, x, x, x, x, x, x]"
  by (simp add: numeral_eq_Suc)

lemma demo_load:
  "hw_ostc3_firmware_load 16 demo_aes (Some demo_firmware_file) =
     Inr ([1, 2, 3, 0, 0, 0, 0, 0, 0, 0, 0, 0, 0, 0, 0, 0], [6, 0, 10, 0])"
  by (simp add: hw_ostc3_firmware_load_def demo_firmware_file_def demo_aes_def
      hw_ostc3_firmware_readline_def fread_def array_convert_hex2bin_def hex_digit_def
      array_uint24_be_def decrypt_block_def ostc3_key_def upt_rec replicate_16
      firmware_block_loop.simps)

lemma demo_low: "fletcher_low [1, 2, 3, 0, 0, 0, 0, 0, 0, 0, 0, 0, 0, 0, 0, 0] = 6"
  by (simp add: fletcher_low_def)
lemma demo_high: "fletcher_high [1, 2, 3, 0, 0, 0, 0, 0, 0, 0, 0, 0, 0, 0, 0, 0] = 88"
  by (simp add: fletcher_high_def upt_rec)

theorem firmware_checksum_fletcher_witness:
  "hw_ostc3_firmware_load 16 demo_aes (Some demo_firmware_file) =
     Inr ([1, 2, 3, 0, 0, 0, 0, 0, 0, 0, 0, 0, 0, 0, 0, 0], [6, 0, 10, 0])
   \<and> array_uint32_le [6, 0, 10, 0] \<noteq>
        (push_bit 16 (word_of_nat (fletcher_high [1, 2, 3, 0, 0, 0, 0, 0, 0, 0, 0, 0, 0, 0, 0, 0]))
           OR word_of_nat (fletcher_low [1, 2, 3, 0, 0, 0, 0, 0, 0, 0, 0, 0, 0, 0, 0, 0]))
   \<and> hw_ostc3_firmware_readfile_sz 16 demo_aes (Some demo_firmware_file) = DC_STATUS_DATAFORMAT"
  using firmware_checksum_fletcher [of "[1, 2, 3, 0, 0, 0, 0, 0, 0, 0, 0, 0, 0, 0, 0, 0]" 16 demo_aes
      "Some demo_firmware_file" "[6, 0, 10, 0]"] demo_load
  by (simp add: demo_low demo_high array_uint32_le_def)

subsection \<open>OSTC3 command echo\<close>

text \<open>
  Claim C4. In an OSTC3 command transfer that is not cancelled, whose command byte was
  written and whose one-byte echo \<open>e\<close> was read, an echo different from the command
  gives \<open>DC_STATUS_UNSUPPORTED\<close> when \<open>e\<close> is the ready byte of the session state
  (\<open>0x4C\<close> in service mode, \<open>0x4D\<close> otherwise) and \<open>DC_STATUS_PROTOCOL\<close> for any other
  echo.
\<close>

theorem transfer_echo_mismatch:
  assumes "\<not> ops_cancelled ops (serial_port device)"
    and "ops_write ops (serial_port device) [cmd] = (1, port1)"
    and "ops_read ops port1 1 = ((1, [e]), port2)"
    and "e \<noteq> cmd"
  shows "fst (hw_ostc3_transfer ops device cmd inp out) =
           (if e = (if state device = SERVICE then 0x4C else 0x4D)
            then DC_STATUS_UNSUPPORTED else DC_STATUS_PROTOCOL)"
  using assms
  by (simp add: hw_ostc3_transfer_def hw_ostc3_ready_def read_buffer_def S_READY_def READY_def)

theorem transfer_echo_mismatch_witness:
  "\<not> ops_cancelled queue_ops (serial_port \<lparr>serial_port = [0x4D], fingerprint = [], state = DOWNLOAD\<rparr>)
   \<and> ops_write queue_ops (serial_port \<lparr>serial_port = [0x4D], fingerprint = [], state = DOWNLOAD\<rparr>) [0x6A]
        = (1, [0x4D])
   \<and> ops_read queue_ops [0x4D] 1 = ((1, [0x4D]), [])
   \<and> (0x4D :: byte) \<noteq> 0x6A
   \<and> fst (hw_ostc3_transfer queue_ops \<lparr>serial_port = [0x4D], fingerprint = [], state = DOWNLOAD\<rparr>
             0x6A None [0]) = DC_STATUS_UNSUPPORTED"
  using transfer_echo_mismatch [of queue_ops
      "\<lparr>serial_port = [0x4D], fingerprint = [], state = DOWNLOAD\<rparr>" "0x6A" "[0x4D]" "0x4D" "[]"
      None "[0]"]
  by (simp add: queue_ops_def)


subsection \<open>Setting the fingerprint\<close>

lemma uint32_le_or:
  fixes a b c d :: byte
  shows "(ucast a + push_bit 8 (ucast b) + push_bit 16 (ucast c) + push_bit 24 (ucast d) :: 32 word)
       = ((ucast a OR push_bit 8 (ucast b)) OR push_bit 16 (ucast c)) OR push_bit 24 (ucast d)"
proof -
  have 1: "(ucast a + push_bit 8 (ucast b) :: 32 word) = ucast a OR push_bit 8 (ucast b)"
    by (rule disjunctive_add) (auto simp: bit_simps dest: bit_imp_le_length)
  have 2: "((ucast a OR push_bit 8 (ucast b)) + push_bit 16 (ucast c) :: 32 word)
      = (ucast a OR push_bit 8 (ucast b)) OR push_bit 16 (ucast c)"
    by (rule disjunctive_add) (auto simp: bit_simps dest: bit_imp_le_length)
  have 3: "(((ucast a OR push_bit 8 (ucast b)) OR push_bit 16 (ucast c)) + push_bit 24 (ucast d) :: 32 word)
      = ((ucast a OR push_bit 8 (ucast b)) OR push_bit 16 (ucast c)) OR push_bit 24 (ucast d)"
    by (rule disjunctive_add) (auto simp: bit_simps dest: bit_imp_le_length)
  show ?thesis
    by (simp only: 1 2 3)
qed

lemma uint32_le_split:
  fixes a b c d :: byte
  defines "w \<equiv> (ucast a + push_bit 8 (ucast b) + push_bit 16 (ucast c) + push_bit 24 (ucast d) :: 32 word)"
  shows "ucast w = a" "ucast (drop_bit 8 w) = b" "ucast (drop_bit 16 w) = c" "ucast (drop_bit 24 w) = d"
  unfolding w_def uint32_le_or
  by (rule bit_eqI; auto simp: bit_simps dest: bit_imp_le_length)+

lemma uint32_le_bytes:
  assumes "length data = 4"
  shows "[ucast (array_uint32_le data), ucast (drop_bit 8 (array_uint32_le data)),
      ucast (drop_bit 16 (array_uint32_le data)), ucast (drop_bit 24 (array_uint32_le data))] = data"
proof -
  from assms obtain a b c d where d: "data = [a, b, c, d]"
    by (auto simp: length_Suc_conv numeral_eq_Suc)
  have w: "array_uint32_le data = ucast a + push_bit 8 (ucast b) + push_bit 16 (ucast c) + push_bit 24 (ucast d)"
    by (simp add: d array_uint32_le_def)
  show ?thesis
    unfolding w using uint32_le_split [of a b c d]
    by (simp only: d)
qed

text \<open>
  Claim C9. \<open>set_fingerprint\<close> returns \<open>DC_STATUS_INVALIDARGS\<close> for a size that is
  neither zero nor the family's fingerprint length (5 bytes for the OSTC3, 4 for the
  Aladin); with that length it stores the given bytes and succeeds (the Aladin keeps
  them as a little-endian 32-bit timestamp, from which the bytes are read back); with
  size zero it clears the stored fingerprint and succeeds.
\<close>

theorem set_fingerprint_sizes:
  "(n \<noteq> 0 \<and> n \<noteq> 5 \<longrightarrow>
      hw_ostc3_device_set_fingerprint device data n = (DC_STATUS_INVALIDARGS, device))
   \<and> (length fp = 5 \<longrightarrow>
      hw_ostc3_device_set_fingerprint device fp 5 =
        (DC_STATUS_SUCCESS, device\<lparr>fingerprint := fp\<rparr>))
   \<and> hw_ostc3_device_set_fingerprint device data 0 =
        (DC_STATUS_SUCCESS, device\<lparr>fingerprint := [0, 0, 0, 0, 0]\<rparr>)
   \<and> (m \<noteq> 0 \<and> m \<noteq> 4 \<longrightarrow>
      uwatec_aladin_device_set_fingerprint aladin bytes m = (DC_STATUS_INVALIDARGS, aladin))
   \<and> (length ts = 4 \<longrightarrow>
      fst (uwatec_aladin_device_set_fingerprint aladin ts 4) = DC_STATUS_SUCCESS
      \<and> (let t = timestamp (snd (uwatec_aladin_device_set_fingerprint aladin ts 4))
         in [ucast t, ucast (drop_bit 8 t), ucast (drop_bit 16 t), ucast (drop_bit 24 t)] = ts))
   \<and> uwatec_aladin_device_set_fingerprint aladin bytes 0 =
        (DC_STATUS_SUCCESS, aladin\<lparr>timestamp := 0\<rparr>)"
  using uint32_le_bytes [of ts]
  by (simp add: hw_ostc3_device_set_fingerprint_def uwatec_aladin_device_set_fingerprint_def
      numeral_eq_Suc Let_def)

theorem set_fingerprint_sizes_witness:
  "((3::nat) \<noteq> 0 \<and> (3::nat) \<noteq> 5)
   \<and> hw_ostc3_device_set_fingerprint \<lparr>serial_port = (), fingerprint = [9, 9, 9, 9, 9], state = OPEN\<rparr>
        [1, 2, 3] 3
       = (DC_STATUS_INVALIDARGS, \<lparr>serial_port = (), fingerprint = [9, 9, 9, 9, 9], state = OPEN\<rparr>)
   \<and> length [1, 2, 3, 4, 5 :: byte] = 5
   \<and> hw_ostc3_device_set_fingerprint \<lparr>serial_port = (), fingerprint = [9, 9, 9, 9, 9], state = OPEN\<rparr>
        [1, 2, 3, 4, 5] 5
       = (DC_STATUS_SUCCESS, \<lparr>serial_port = (), fingerprint = [1, 2, 3, 4, 5], state = OPEN\<rparr>)
   \<and> ((7::nat) \<noteq> 0 \<and> (7::nat) \<noteq> 4)
   \<and> uwatec_aladin_device_set_fingerprint \<lparr>timestamp = 1, devtime = 0\<rparr> [1, 2, 3] 7
       = (DC_STATUS_INVALIDARGS, \<lparr>timestamp = 1, devtime = 0\<rparr>)
   \<and> length [0x78, 0x56, 0x34, 0x12 :: byte] = 4
   \<and> uwatec_aladin_device_set_fingerprint \<lparr>timestamp = 1, devtime = 0\<rparr> [0x78, 0x56, 0x34, 0x12] 4
       = (DC_STATUS_SUCCESS, \<lparr>timestamp = 0x12345678, devtime = 0\<rparr>)"
  using set_fingerprint_sizes [of 3 "\<lparr>serial_port = (), fingerprint = [9, 9, 9, 9, 9], state = OPEN\<rparr>"
      "[1, 2, 3]" "[1, 2, 3, 4, 5]" 7 "\<lparr>timestamp = 1, devtime = 0\<rparr>" "[1, 2, 3]"
      "[0x78, 0x56, 0x34, 0x12]"]
  by (simp add: uwatec_aladin_device_set_fingerprint_def array_uint32_le_def)

subsection \<open>Oceanic year completion\<close>

lemma bv_nonneg: "0 \<le> bv b"
  by (simp add: bv_def)

lemma decoded_year_ge_2000: "2000 \<le> year (fst (oceanic_decode_datetime model p))"
  by (simp add: oceanic_decode_datetime_def bv_nonneg)

lemma year2010_workaround_guess:
  assumes "2000 \<le> y" and "y < 2010" and "2010 \<le> host"
  shows "year2010_workaround y (Some host) =
           (host div 10) * 10 + y mod 10 - (if y mod 10 > host mod 10 then 10 else 0)"
proof -
  have "y - 2000 = y mod 10"
    using assms(1,2) by presburger
  then show ?thesis
    using assms by (simp add: year2010_workaround_def Let_def)
qed

text \<open>
  Claim C6, as stated, fails: the year guess is applied to a TX1 dive, a model that
  stores the year as a full BCD byte. The decoded year 2005 is returned as 2025 on a
  host in 2026.
\<close>

theorem year_guess_tx1_counterexample:
  "year (fst (oceanic_decode_datetime TX1 demo_tx1_header)) = 2005
   \<and> oceanic_atom2_parser_get_datetime TX1 demo_tx1_header (Some 2026) =
       Inr \<lparr>year = 2025, month = 3, day = 17, hour = 10, minute = 30, second = 0\<rparr>"
  by (simp add: oceanic_atom2_parser_get_datetime_def oceanic_decode_datetime_def
      demo_tx1_header_def year2010_workaround_def bcd2dec_def bv_def
      OC1A_def OC1B_def OC1C_def OCS_def VT4_def VT41_def ATOM3_def ATOM31_def A300AI_def OCI_def
      VT3_def VEO20_def VEO30_def DG03_def T3A_def T3B_def GEO20_def PROPLUS3_def
      ZENAIR_def AMPHOS_def AMPHOSAIR_def VOYAGER2G_def F10_def F11A_def F11B_def TX1_def)

text \<open>
  Claim C6, amended. For every model and every blob that \<open>get_datetime\<close> accepts: when
  the decoded year is below 2010 and the host's local year is known and at least 2010,
  the returned year is the decoded year's last digit completed with the host's decade,
  minus 10 when the decoded year mod 10 exceeds the host year mod 10. The guess is
  gated by the decoded value alone: it is made for every model, and never when the
  decoded year is 2010 or later.
\<close>

theorem year_guess_by_value:
  "(oceanic_atom2_parser_get_datetime model p (Some host) = Inr dt
      \<and> year (fst (oceanic_decode_datetime model p)) < 2010 \<and> 2010 \<le> host
    \<longrightarrow> year dt = (host div 10) * 10 + year (fst (oceanic_decode_datetime model p)) mod 10
                 - (if year (fst (oceanic_decode_datetime model p)) mod 10 > host mod 10
                    then 10 else 0))
   \<and> (oceanic_atom2_parser_get_datetime model' p' now' = Inr dt'
      \<and> 2010 \<le> year (fst (oceanic_decode_datetime model' p'))
    \<longrightarrow> year dt' = year (fst (oceanic_decode_datetime model' p')))"
proof (intro conjI impI)
  assume a: "oceanic_atom2_parser_get_datetime model p (Some host) = Inr dt
      \<and> year (fst (oceanic_decode_datetime model p)) < 2010 \<and> 2010 \<le> host"
  then have "year dt = year2010_workaround (year (fst (oceanic_decode_datetime model p))) (Some host)"
    by (auto simp: oceanic_atom2_parser_get_datetime_def Let_def split: if_splits prod.splits)
  with a show "year dt = (host div 10) * 10 + year (fst (oceanic_decode_datetime model p)) mod 10
                 - (if year (fst (oceanic_decode_datetime model p)) mod 10 > host mod 10
                    then 10 else 0)"
    using year2010_workaround_guess [OF decoded_year_ge_2000 [of model p]] by simp
next
  assume a: "oceanic_atom2_parser_get_datetime model' p' now' = Inr dt'
      \<and> 2010 \<le> year (fst (oceanic_decode_datetime model' p'))"
  then have "year dt' = year2010_workaround (year (fst (oceanic_decode_datetime model' p'))) now'"
    by (auto simp: oceanic_atom2_parser_get_datetime_def Let_def split: if_splits prod.splits)
  with a show "year dt' = year (fst (oceanic_decode_datetime model' p'))"
    by (simp add: year2010_workaround_def)
qed

lemma demo_atom2_decoded:
  "oceanic_decode_datetime ATOM2 demo_atom2_header =
     (\<lparr>year = 2009, month = 3, day = 17, hour = 10, minute = 30, second = 0\<rparr>, False)"
  by (simp add: oceanic_decode_datetime_def demo_atom2_header_def bcd2dec_def bv_def
      OC1A_def OC1B_def OC1C_def OCS_def VT4_def VT41_def ATOM3_def ATOM31_def A300AI_def OCI_def
      VT3_def VEO20_def VEO30_def DG03_def T3A_def T3B_def GEO20_def PROPLUS3_def
      ZENAIR_def AMPHOS_def AMPHOSAIR_def VOYAGER2G_def F10_def F11A_def F11B_def TX1_def
      A300CS_def VTX_def ATOM2_def)

lemma demo_tx1_2015_decoded:
  "oceanic_decode_datetime TX1 demo_tx1_header_2015 =
     (\<lparr>year = 2015, month = 3, day = 17, hour = 10, minute = 30, second = 0\<rparr>, False)"
  by (simp add: oceanic_decode_datetime_def demo_tx1_header_2015_def bcd2dec_def bv_def
      OC1A_def OC1B_def OC1C_def OCS_def VT4_def VT41_def ATOM3_def ATOM31_def A300AI_def OCI_def
      VT3_def VEO20_def VEO30_def DG03_def T3A_def T3B_def GEO20_def PROPLUS3_def
      ZENAIR_def AMPHOS_def AMPHOSAIR_def VOYAGER2G_def F10_def F11A_def F11B_def TX1_def)

lemma demo_atom2_datetime:
  "oceanic_atom2_parser_get_datetime ATOM2 demo_atom2_header (Some 2026) =
       Inr \<lparr>year = 2019, month = 3, day = 17, hour = 10, minute = 30, second = 0\<rparr>"
proof -
  have "length demo_atom2_header = 8"
    by (simp add: demo_atom2_header_def)
  moreover have "ATOM2 \<noteq> F10 \<and> ATOM2 \<noteq> F11A \<and> ATOM2 \<noteq> F11B"
    by (simp add: F10_def F11A_def F11B_def ATOM2_def)
  ultimately show ?thesis
    by (simp add: oceanic_atom2_parser_get_datetime_def demo_atom2_decoded
        year2010_workaround_def)
qed

lemma demo_tx1_2015_datetime:
  "oceanic_atom2_parser_get_datetime TX1 demo_tx1_header_2015 (Some 2026) =
       Inr \<lparr>year = 2015, month = 3, day = 17, hour = 10, minute = 30, second = 0\<rparr>"
proof -
  have "length demo_tx1_header_2015 = 16"
    by (simp add: demo_tx1_header_2015_def)
  moreover have "TX1 \<noteq> F10 \<and> TX1 \<noteq> F11A \<and> TX1 \<noteq> F11B"
    by (simp add: F10_def F11A_def F11B_def TX1_def)
  ultimately show ?thesis
    by (simp add: oceanic_atom2_parser_get_datetime_def demo_tx1_2015_decoded
        year2010_workaround_def)
qed

theorem year_guess_by_value_witness:
  "oceanic_atom2_parser_get_datetime ATOM2 demo_atom2_header (Some 2026) =
       Inr \<lparr>year = 2019, month = 3, day = 17, hour = 10, minute = 30, second = 0\<rparr>
   \<and> year (fst (oceanic_decode_datetime ATOM2 demo_atom2_header)) < 2010 \<and> (2010::int) \<le> 2026
   \<and> (2019::int) = (2026 div 10) * 10 + year (fst (oceanic_decode_datetime ATOM2 demo_atom2_header)) mod 10
         - (if year (fst (oceanic_decode_datetime ATOM2 demo_atom2_header)) mod 10 > 2026 mod 10
            then 10 else 0)
   \<and> oceanic_atom2_parser_get_datetime TX1 demo_tx1_header_2015 (Some 2026) =
       Inr \<lparr>year = 2015, month = 3, day = 17, hour = 10, minute = 30, second = 0\<rparr>
   \<and> 2010 \<le> year (fst (oceanic_decode_datetime TX1 demo_tx1_header_2015))"
  using year_guess_by_value [of ATOM2 demo_atom2_header 2026
      "\<lparr>year = 2019, month = 3, day = 17, hour = 10, minute = 30, second = 0\<rparr>"
      TX1 demo_tx1_header_2015 "Some 2026"
      "\<lparr>year = 2015, month = 3, day = 17, hour = 10, minute = 30, second = 0\<rparr>"]
  by (simp add: demo_atom2_datetime demo_tx1_2015_datetime demo_atom2_decoded
      demo_tx1_2015_decoded)

subsection \<open>Shearwater gas-mix table\<close>

lemma set_first_occurrences [simp]: "set (first_occurrences xs) = set xs"
  by (induction xs rule: first_occurrences.induct) auto

lemma distinct_first_occurrences [simp]: "distinct (first_occurrences xs)"
  by (induction xs rule: first_occurrences.induct) auto

lemma first_occurrences_filter:
  "first_occurrences (filter P xs) = filter P (first_occurrences xs)"
proof (induction xs rule: first_occurrences.induct)
  case 1
  show ?case by simp
next
  case (2 x xs)
  have swap: "filter (\<lambda>y. y \<noteq> x) (filter P xs) = filter P (filter (\<lambda>y. y \<noteq> x) xs)"
    by (induction xs) auto
  show ?case
  proof (cases "P x")
    case True
    then show ?thesis using 2 by (simp add: swap del: filter_filter)
  next
    case False
    have "filter (\<lambda>y. y \<noteq> x) (filter P xs) = filter P xs"
      using False by (induction xs) auto
    then show ?thesis using 2 False swap by (simp del: filter_filter)
  qed
qed

lemma filter_dropWhile_eq:
  "filter (\<lambda>y. y \<noteq> p) (dropWhile (\<lambda>y. y = p) xs) = filter (\<lambda>y. y \<noteq> p) xs"
  by (induction xs) auto

lemma first_occurrences_changes:
  "first_occurrences (gas_changes prev ps) = first_occurrences (dropWhile (\<lambda>p. p = prev) ps)"
proof (induction ps arbitrary: prev)
  case Nil
  show ?case by simp
next
  case (Cons p ps)
  show ?case
  proof (cases "p = prev")
    case True
    then show ?thesis using Cons [of prev] by simp
  next
    case False
    have "first_occurrences (filter (\<lambda>y. y \<noteq> p) (gas_changes p ps))
        = filter (\<lambda>y. y \<noteq> p) (first_occurrences (dropWhile (\<lambda>y. y = p) ps))"
      by (simp add: first_occurrences_filter Cons [of p])
    also have "\<dots> = first_occurrences (filter (\<lambda>y. y \<noteq> p) ps)"
      by (simp add: first_occurrences_filter [symmetric] filter_dropWhile_eq)
    finally show ?thesis using False by simp
  qed
qed

lemma gasmix_search_stop: "\<not> i < n \<Longrightarrow> gasmix_search ox he n o2 he2 i = i"
  by (subst gasmix_search.simps) simp

lemma gasmix_search_hit:
  "i < n \<Longrightarrow> o2 = ox ! i \<Longrightarrow> he2 = he ! i \<Longrightarrow> gasmix_search ox he n o2 he2 i = i"
  by (subst gasmix_search.simps) simp

lemma gasmix_search_miss:
  "i < n \<Longrightarrow> \<not> (o2 = ox ! i \<and> he2 = he ! i) \<Longrightarrow>
     gasmix_search ox he n o2 he2 i = gasmix_search ox he n o2 he2 (i + 1)"
  by (subst gasmix_search.simps) auto

text \<open>The search returns the first index below \<open>n\<close> that holds the pair, or \<open>n\<close>.\<close>

lemma gasmix_search_bounds:
  "i \<le> n \<Longrightarrow> i \<le> gasmix_search ox he n o2 he2 i \<and> gasmix_search ox he n o2 he2 i \<le> n"
proof (induction ox he n o2 he2 i rule: gasmix_search.induct)
  case (1 ox he n o2 he2 i)
  consider "\<not> i < n" | "i < n" "o2 = ox ! i \<and> he2 = he ! i"
    | "i < n" "\<not> (o2 = ox ! i \<and> he2 = he ! i)" by blast
  then show ?case
  proof cases
    case 1
    then show ?thesis using "1.prems" by (simp add: gasmix_search_stop)
  next
    case 2
    then show ?thesis by (simp add: gasmix_search_hit)
  next
    case 3
    then show ?thesis using "1.IH" by (simp add: gasmix_search_miss)
  qed
qed

lemma gasmix_search_found:
  "gasmix_search ox he n o2 he2 i < n \<Longrightarrow>
     ox ! gasmix_search ox he n o2 he2 i = o2 \<and> he ! gasmix_search ox he n o2 he2 i = he2"
proof (induction ox he n o2 he2 i rule: gasmix_search.induct)
  case (1 ox he n o2 he2 i)
  consider "\<not> i < n" | "i < n" "o2 = ox ! i \<and> he2 = he ! i"
    | "i < n" "\<not> (o2 = ox ! i \<and> he2 = he ! i)" by blast
  then show ?case
  proof cases
    case 1
    then show ?thesis using "1.prems" by (simp add: gasmix_search_stop)
  next
    case 2
    then show ?thesis by (simp add: gasmix_search_hit)
  next
    case 3
    then show ?thesis using "1.IH" "1.prems" by (simp add: gasmix_search_miss)
  qed
qed

lemma gasmix_search_skipped:
  "i \<le> j \<Longrightarrow> j < gasmix_search ox he n o2 he2 i \<Longrightarrow> \<not> (ox ! j = o2 \<and> he ! j = he2)"
proof (induction ox he n o2 he2 i rule: gasmix_search.induct)
  case (1 ox he n o2 he2 i)
  consider "\<not> i < n" | "i < n" "o2 = ox ! i \<and> he2 = he ! i"
    | "i < n" "\<not> (o2 = ox ! i \<and> he2 = he ! i)" by blast
  then show ?case
  proof cases
    case 1
    then show ?thesis using "1.prems" by (simp add: gasmix_search_stop)
  next
    case 2
    then show ?thesis using "1.prems" by (simp add: gasmix_search_hit)
  next
    case 3
    show ?thesis
    proof (cases "j = i")
      case True
      then show ?thesis using 3 by auto
    next
      case False
      then show ?thesis using "1.IH" 3 "1.prems" by (simp add: gasmix_search_miss)
    qed
  qed
qed

lemma table_nth:
  "n \<le> length ox \<Longrightarrow> n \<le> length he \<Longrightarrow> j < n \<Longrightarrow> zip (take n ox) (take n he) ! j = (ox ! j, he ! j)"
  by simp

lemma gasmix_search_in_table:
  assumes "n \<le> length ox" "n \<le> length he"
  shows "gasmix_search ox he n o2 he2 0 < n \<longleftrightarrow> (o2, he2) \<in> set (zip (take n ox) (take n he))"
proof
  assume lt: "gasmix_search ox he n o2 he2 0 < n"
  then have "zip (take n ox) (take n he) ! gasmix_search ox he n o2 he2 0 = (o2, he2)"
    using gasmix_search_found [of ox he n o2 he2 0] assms by simp
  moreover have "gasmix_search ox he n o2 he2 0 < length (zip (take n ox) (take n he))"
    using lt assms by simp
  ultimately show "(o2, he2) \<in> set (zip (take n ox) (take n he))"
    by (metis nth_mem)
next
  assume "(o2, he2) \<in> set (zip (take n ox) (take n he))"
  then obtain j where j: "j < n" "ox ! j = o2" "he ! j = he2"
    using assms by (auto simp: in_set_conv_nth)
  show "gasmix_search ox he n o2 he2 0 < n"
  proof (rule ccontr)
    assume "\<not> gasmix_search ox he n o2 he2 0 < n"
    then have "j < gasmix_search ox he n o2 he2 0" using j(1) by simp
    then show False using gasmix_search_skipped [of 0 j ox he n o2 he2] j by simp
  qed
qed

lemma take_Suc_update: "n < length xs \<Longrightarrow> take (Suc n) (xs[n := v]) = take n xs @ [v]"
  by (simp add: take_Suc_conv_app_nth)

lemma gs_table_length: "gs_inv s \<Longrightarrow> length (gs_table s) = gs_ngasmixes s"
  by (simp add: gs_inv_def gs_table_def)

lemma cache_sample_same:
  assumes "gs_inv s" "pair_at blob offset = gs_previous s"
  shows "\<exists>s'. cache_sample blob offset s = Inr s' \<and> gs_table s' = gs_table s
            \<and> gs_previous s' = gs_previous s \<and> gs_inv s'"
  using assms
  by (auto simp: cache_sample_def Let_def pair_at_def gs_previous_def gs_table_def gs_inv_def)

lemma cache_sample_known:
  assumes "gs_inv s" "pair_at blob offset \<noteq> gs_previous s" "pair_at blob offset \<in> set (gs_table s)"
  shows "\<exists>s'. cache_sample blob offset s = Inr s' \<and> gs_table s' = gs_table s
            \<and> gs_previous s' = pair_at blob offset \<and> gs_inv s'"
proof -
  have "gasmix_search (gs_oxygen s) (gs_helium s) (gs_ngasmixes s)
          (unat (blob ! (offset + 7))) (unat (blob ! (offset + 8))) 0 < gs_ngasmixes s"
    using assms gasmix_search_in_table [of "gs_ngasmixes s" "gs_oxygen s" "gs_helium s"]
    by (simp add: gs_inv_def gs_table_def pair_at_def)
  then show ?thesis
    using assms
    by (auto simp: cache_sample_def Let_def pair_at_def gs_previous_def gs_table_def gs_inv_def)
qed

lemma cache_sample_new_index:
  assumes "gs_inv s" "pair_at blob offset \<notin> set (gs_table s)"
  shows "gasmix_search (gs_oxygen s) (gs_helium s) (gs_ngasmixes s)
          (unat (blob ! (offset + 7))) (unat (blob ! (offset + 8))) 0 = gs_ngasmixes s"
proof -
  have "\<not> gasmix_search (gs_oxygen s) (gs_helium s) (gs_ngasmixes s)
          (unat (blob ! (offset + 7))) (unat (blob ! (offset + 8))) 0 < gs_ngasmixes s"
    using assms gasmix_search_in_table [of "gs_ngasmixes s" "gs_oxygen s" "gs_helium s"]
    by (simp add: gs_inv_def gs_table_def pair_at_def)
  then show ?thesis
    using gasmix_search_bounds [of 0 "gs_ngasmixes s" "gs_oxygen s" "gs_helium s"
        "unat (blob ! (offset + 7))" "unat (blob ! (offset + 8))"]
    by simp
qed

lemma cache_sample_full:
  assumes "gs_inv s" "pair_at blob offset \<noteq> gs_previous s" "pair_at blob offset \<notin> set (gs_table s)"
    "NGASMIXES \<le> gs_ngasmixes s"
  shows "cache_sample blob offset s = Inl DC_STATUS_NOMEMORY"
  using assms cache_sample_new_index [OF assms(1,3)]
  by (auto simp: cache_sample_def Let_def pair_at_def gs_previous_def gs_table_def gs_inv_def)

lemma cache_sample_new:
  assumes "gs_inv s" "pair_at blob offset \<noteq> gs_previous s" "pair_at blob offset \<notin> set (gs_table s)"
    "gs_ngasmixes s < NGASMIXES"
  shows "\<exists>s'. cache_sample blob offset s = Inr s' \<and> gs_table s' = gs_table s @ [pair_at blob offset]
            \<and> gs_previous s' = pair_at blob offset \<and> gs_inv s'"
  using assms cache_sample_new_index [OF assms(1,3)]
  by (auto simp: cache_sample_def Let_def pair_at_def gs_previous_def gs_table_def gs_inv_def
      take_Suc_update)

lemma cache_loop_stop: "\<not> offset < len \<Longrightarrow> cache_loop blob p offset len s = Inr s"
  by (subst cache_loop.simps) simp

lemma cache_loop_empty:
  "offset < len \<Longrightarrow> array_isequal (drop offset blob) (samplesize p) 0x00 \<Longrightarrow>
     cache_loop blob p offset len s = cache_loop blob p (offset + samplesize p) len s"
  by (subst cache_loop.simps) simp

lemma cache_loop_sample:
  "offset < len \<Longrightarrow> \<not> array_isequal (drop offset blob) (samplesize p) 0x00 \<Longrightarrow>
     cache_loop blob p offset len s =
       (case cache_sample blob offset s of
          Inl e \<Rightarrow> Inl e
        | Inr s' \<Rightarrow> cache_loop blob p (offset + samplesize p) len s')"
  by (subst cache_loop.simps) simp

lemma profile_pairs_stop: "\<not> offset < len \<Longrightarrow> profile_pairs blob p offset len = []"
  by (subst profile_pairs.simps) simp

lemma profile_pairs_empty:
  "offset < len \<Longrightarrow> array_isequal (drop offset blob) (samplesize p) 0x00 \<Longrightarrow>
     profile_pairs blob p offset len = profile_pairs blob p (offset + samplesize p) len"
  by (subst profile_pairs.simps) simp

lemma profile_pairs_sample:
  "offset < len \<Longrightarrow> \<not> array_isequal (drop offset blob) (samplesize p) 0x00 \<Longrightarrow>
     profile_pairs blob p offset len =
       pair_at blob offset # profile_pairs blob p (offset + samplesize p) len"
  by (subst profile_pairs.simps) (simp add: pair_at_def)

lemma new_mixes_same: "new_mixes tbl prev (prev # ps) = new_mixes tbl prev ps"
  by (simp add: new_mixes_def)

lemma new_mixes_known:
  "p \<noteq> prev \<Longrightarrow> p \<in> set tbl \<Longrightarrow> new_mixes tbl prev (p # ps) = new_mixes tbl p ps"
  by (simp add: new_mixes_def)

lemma new_mixes_new:
  "p \<noteq> prev \<Longrightarrow> p \<notin> set tbl \<Longrightarrow>
     new_mixes tbl prev (p # ps) = p # new_mixes (tbl @ [p]) p ps"
proof -
  have "filter (\<lambda>y. y \<noteq> p) (filter (\<lambda>q. q \<notin> set tbl) xs) = filter (\<lambda>q. q \<notin> set (tbl @ [p])) xs" for xs
    by (induction xs) auto
  then show "p \<noteq> prev \<Longrightarrow> p \<notin> set tbl \<Longrightarrow> ?thesis"
    by (simp add: new_mixes_def)
qed

lemma cache_loop_table:
  assumes "gs_inv s"
  shows "if gs_ngasmixes s + length (new_mixes (gs_table s) (gs_previous s)
                                        (profile_pairs blob p offset len)) \<le> NGASMIXES
         then \<exists>s'. cache_loop blob p offset len s = Inr s'
                \<and> gs_table s' = gs_table s @ new_mixes (gs_table s) (gs_previous s)
                                                (profile_pairs blob p offset len)
                \<and> gs_inv s'
         else cache_loop blob p offset len s = Inl DC_STATUS_NOMEMORY"
  using assms
proof (induction blob p offset len s rule: cache_loop.induct)
  case (1 blob p offset len s)
  consider (stop) "\<not> offset < len"
    | (empty) "offset < len" "array_isequal (drop offset blob) (samplesize p) 0x00"
    | (same) "offset < len" "\<not> array_isequal (drop offset blob) (samplesize p) 0x00"
        "pair_at blob offset = gs_previous s"
    | (known) "offset < len" "\<not> array_isequal (drop offset blob) (samplesize p) 0x00"
        "pair_at blob offset \<noteq> gs_previous s" "pair_at blob offset \<in> set (gs_table s)"
    | (full) "offset < len" "\<not> array_isequal (drop offset blob) (samplesize p) 0x00"
        "pair_at blob offset \<noteq> gs_previous s" "pair_at blob offset \<notin> set (gs_table s)"
        "NGASMIXES \<le> gs_ngasmixes s"
    | (new) "offset < len" "\<not> array_isequal (drop offset blob) (samplesize p) 0x00"
        "pair_at blob offset \<noteq> gs_previous s" "pair_at blob offset \<notin> set (gs_table s)"
        "gs_ngasmixes s < NGASMIXES"
    by linarith
  then show ?case
  proof cases
    case stop
    then show ?thesis
      using "1.prems" by (simp add: cache_loop_stop profile_pairs_stop new_mixes_def gs_inv_def)
  next
    case empty
    then show ?thesis
      using "1.IH"(1) "1.prems" by (simp add: cache_loop_empty profile_pairs_empty split: if_splits)
  next
    case same
    from cache_sample_same [OF "1.prems" same(3)] obtain s' where
      s': "cache_sample blob offset s = Inr s'" "gs_table s' = gs_table s"
        "gs_previous s' = gs_previous s" "gs_inv s'" by blast
    have n': "gs_ngasmixes s' = gs_ngasmixes s"
      using gs_table_length [OF s'(4)] gs_table_length [OF "1.prems"] s'(2) by simp
    show ?thesis
      using "1.IH"(2) [OF same(1,2) s'(1) s'(4)] s' same n'
      by (simp add: cache_loop_sample profile_pairs_sample new_mixes_same split: if_splits)
  next
    case known
    from cache_sample_known [OF "1.prems" known(3,4)] obtain s' where
      s': "cache_sample blob offset s = Inr s'" "gs_table s' = gs_table s"
        "gs_previous s' = pair_at blob offset" "gs_inv s'" by blast
    have n': "gs_ngasmixes s' = gs_ngasmixes s"
      using gs_table_length [OF s'(4)] gs_table_length [OF "1.prems"] s'(2) by simp
    show ?thesis
      using "1.IH"(2) [OF known(1,2) s'(1) s'(4)] s' known n'
      by (simp add: cache_loop_sample profile_pairs_sample new_mixes_known split: if_splits)
  next
    case full
    show ?thesis
      using cache_sample_full [OF "1.prems" full(3,4,5)] full
      by (simp add: cache_loop_sample profile_pairs_sample new_mixes_new)
  next
    case new
    from cache_sample_new [OF "1.prems" new(3,4,5)] obtain s' where
      s': "cache_sample blob offset s = Inr s'" "gs_table s' = gs_table s @ [pair_at blob offset]"
        "gs_previous s' = pair_at blob offset" "gs_inv s'" by blast
    have n': "gs_ngasmixes s' = Suc (gs_ngasmixes s)"
      using gs_table_length [OF s'(4)] gs_table_length [OF "1.prems"] s'(2) by simp
    show ?thesis
      using "1.IH"(2) [OF new(1,2) s'(1) s'(4)] s' new n'
      by (simp add: cache_loop_sample profile_pairs_sample new_mixes_new split: if_splits)
  qed
qed

lemma gas_scan_init_inv: "gs_inv gas_scan_init" "gs_table gas_scan_init = []"
  "gs_previous gas_scan_init = (0, 0)" "gs_ngasmixes gas_scan_init = 0"
  by (simp_all add: gs_inv_def gas_scan_init_def gs_table_def gs_previous_def)

lemma new_mixes_init: "new_mixes [] (0, 0) ps = first_occurrences (dropWhile (\<lambda>p. p = (0, 0)) ps)"
  by (simp add: new_mixes_def first_occurrences_changes)

text \<open>The cache pass on a parser whose cache is empty, in terms of the list of mixes.\<close>

lemma cache_result:
  assumes "cached parser = 0" "\<not> blob_too_short parser"
  shows "if length (mix_list parser) \<le> NGASMIXES
         then \<exists>parser1. shearwater_predator_parser_cache parser = (DC_STATUS_SUCCESS, parser1)
                \<and> gasmix_table parser1 = mix_list parser
                \<and> ngasmixes parser1 = length (mix_list parser)
                \<and> ngasmixes parser1 \<le> length (oxygen parser1)
                \<and> ngasmixes parser1 \<le> length (helium parser1)
                \<and> sw_data parser1 = sw_data parser \<and> petrel parser1 = petrel parser
                \<and> headersize parser1 = SZ_BLOCK \<and> footersize parser1 = cache_footersize parser
                \<and> cached parser1 = 1
         else shearwater_predator_parser_cache parser = (DC_STATUS_NOMEMORY, parser)"
proof -
  let ?loop = "cache_loop (sw_data parser) (petrel parser) SZ_BLOCK
                 (length (sw_data parser) - cache_footersize parser) gas_scan_init"
  note loop = cache_loop_table [OF gas_scan_init_inv(1), of "sw_data parser" "petrel parser"
      SZ_BLOCK "length (sw_data parser) - cache_footersize parser"]
  show ?thesis
  proof (cases "length (mix_list parser) \<le> NGASMIXES")
    case True
    then obtain s' where s': "?loop = Inr s'" "gs_table s' = mix_list parser" "gs_inv s'"
      using loop by (auto simp: gas_scan_init_inv new_mixes_init mix_list_def profile_mixes_def)
    have n: "gs_ngasmixes s' = length (mix_list parser)"
      using gs_table_length [OF s'(3)] s'(2) by simp
    have len: "length (gs_oxygen s') = NGASMIXES" "length (gs_helium s') = NGASMIXES"
      "gs_ngasmixes s' \<le> NGASMIXES"
      using s'(3) by (simp_all add: gs_inv_def)
    show ?thesis
      using True assms s'(1,2) n len
      by (simp add: shearwater_predator_parser_cache_def Let_def blob_too_short_def
          gasmix_table_def gs_table_def)
  next
    case False
    then have "?loop = Inl DC_STATUS_NOMEMORY"
      using loop by (auto simp: gas_scan_init_inv new_mixes_init mix_list_def profile_mixes_def)
    then show ?thesis
      using False assms
      by (simp add: shearwater_predator_parser_cache_def Let_def blob_too_short_def)
  qed
qed

lemma sample_gasmixes_append [simp]:
  "sample_gasmixes (xs @ ys) = sample_gasmixes xs @ sample_gasmixes ys"
  by (induction xs rule: sample_gasmixes.induct) auto

lemma sample_times_append [simp]:
  "sample_times (xs @ ys) = sample_times xs @ sample_times ys"
  by (induction xs rule: sample_times.induct) auto

lemma sample_ppo2_plain [simp]:
  "sample_gasmixes (sample_ppo2 parser blob offset) = []"
  "sample_times (sample_ppo2 parser blob offset) = []"
  by (simp_all add: sample_ppo2_def)

lemma sample_setpoint_deco_plain [simp]:
  "sample_gasmixes [sample_setpoint parser blob offset status] = []"
  "sample_times [sample_setpoint parser blob offset status] = []"
  "sample_gasmixes [sample_deco blob offset] = []"
  "sample_times [sample_deco blob offset] = []"
  by (simp_all add: sample_setpoint_def sample_deco_def Let_def)

lemma samples_sample_same:
  assumes "pair_at (sw_data parser) offset = ss_previous s"
  shows "\<exists>out s'. samples_sample parser offset s = (out, Inr s') \<and> sample_gasmixes out = []
           \<and> sample_times out = [u32 (ss_time s + 10)] \<and> ss_time s' = u32 (ss_time s + 10)
           \<and> ss_previous s' = ss_previous s"
  using assms
  by (auto simp: samples_sample_def Let_def pair_at_def ss_previous_def)

lemma samples_sample_change:
  assumes "pair_at (sw_data parser) offset \<noteq> ss_previous s"
    and "pair_at (sw_data parser) offset \<in> set (gasmix_table parser)"
    and "ngasmixes parser \<le> length (oxygen parser)" "ngasmixes parser \<le> length (helium parser)"
  shows "\<exists>out s' idx. samples_sample parser offset s = (out, Inr s') \<and> sample_gasmixes out = [idx]
           \<and> idx < ngasmixes parser \<and> gasmix_table parser ! idx = pair_at (sw_data parser) offset
           \<and> sample_times out = [u32 (ss_time s + 10)] \<and> ss_time s' = u32 (ss_time s + 10)
           \<and> ss_previous s' = pair_at (sw_data parser) offset"
proof -
  let ?idx = "shearwater_predator_find_gasmix parser (unat (sw_data parser ! (offset + 7)))
                (unat (sw_data parser ! (offset + 8)))"
  have lt: "?idx < ngasmixes parser"
    using assms gasmix_search_in_table [of "ngasmixes parser" "oxygen parser" "helium parser"]
    by (simp add: shearwater_predator_find_gasmix_def gasmix_table_def pair_at_def)
  have "oxygen parser ! ?idx = unat (sw_data parser ! (offset + 7))
      \<and> helium parser ! ?idx = unat (sw_data parser ! (offset + 8))"
    using gasmix_search_found [of "oxygen parser" "helium parser" "ngasmixes parser"] lt
    by (simp add: shearwater_predator_find_gasmix_def)
  then have "gasmix_table parser ! ?idx = pair_at (sw_data parser) offset"
    using lt assms(3,4) by (simp add: gasmix_table_def pair_at_def)
  then show ?thesis
    using lt assms(1)
    by (auto simp: samples_sample_def Let_def pair_at_def ss_previous_def)
qed

lemma samples_loop_stop: "\<not> offset < len \<Longrightarrow> samples_loop parser offset len s = (DC_STATUS_SUCCESS, [])"
  by (subst samples_loop.simps) simp

lemma samples_loop_empty:
  "offset < len \<Longrightarrow> array_isequal (drop offset (sw_data parser)) (samplesize (petrel parser)) 0x00 \<Longrightarrow>
     samples_loop parser offset len s = samples_loop parser (offset + samplesize (petrel parser)) len s"
  by (subst samples_loop.simps) simp

lemma samples_loop_sample:
  "offset < len \<Longrightarrow> \<not> array_isequal (drop offset (sw_data parser)) (samplesize (petrel parser)) 0x00 \<Longrightarrow>
     samples_loop parser offset len s =
       (case samples_sample parser offset s of
                 (out, Inl e) \<Rightarrow> (e, out)
               | (out, Inr s') \<Rightarrow>
                   (case samples_loop parser (offset + samplesize (petrel parser)) len s' of
                      (rc, rest) \<Rightarrow> (rc, out @ rest)))"
  by (subst samples_loop.simps) simp

text \<open>
  When every gas change of the rest of the profile is in the parser's table, the sample
  loop succeeds and its GasMix indices point at the changes, in order.
\<close>

lemma samples_loop_indices:
  assumes "ngasmixes parser \<le> length (oxygen parser)" "ngasmixes parser \<le> length (helium parser)"
    and "set (gas_changes (ss_previous s)
               (profile_pairs (sw_data parser) (petrel parser) offset len))
           \<subseteq> set (gasmix_table parser)"
  shows "\<exists>out. samples_loop parser offset len s = (DC_STATUS_SUCCESS, out)
           \<and> (\<forall>i \<in> set (sample_gasmixes out). i < ngasmixes parser)
           \<and> map (\<lambda>i. gasmix_table parser ! i) (sample_gasmixes out)
               = gas_changes (ss_previous s)
                   (profile_pairs (sw_data parser) (petrel parser) offset len)"
  using assms
proof (induction parser offset len s rule: samples_loop.induct)
  case (1 parser offset len s)
  let ?ss = "samplesize (petrel parser)"
  consider (stop) "\<not> offset < len"
    | (empty) "offset < len" "array_isequal (drop offset (sw_data parser)) ?ss 0x00"
    | (same) "offset < len" "\<not> array_isequal (drop offset (sw_data parser)) ?ss 0x00"
        "pair_at (sw_data parser) offset = ss_previous s"
    | (change) "offset < len" "\<not> array_isequal (drop offset (sw_data parser)) ?ss 0x00"
        "pair_at (sw_data parser) offset \<noteq> ss_previous s"
    by blast
  then show ?case
  proof cases
    case stop
    then show ?thesis by (simp add: samples_loop_stop profile_pairs_stop)
  next
    case empty
    then show ?thesis
      using "1.IH"(1) "1.prems" by (simp add: samples_loop_empty profile_pairs_empty)
  next
    case same
    from samples_sample_same [OF same(3)] obtain out s' where
      o: "samples_sample parser offset s = (out, Inr s')" "sample_gasmixes out = []"
        "ss_previous s' = ss_previous s" by blast
    have "set (gas_changes (ss_previous s')
               (profile_pairs (sw_data parser) (petrel parser) (offset + ?ss) len))
           \<subseteq> set (gasmix_table parser)"
      using "1.prems"(3) same o(3) by (simp add: profile_pairs_sample)
    from "1.IH"(2) [OF same(1,2) o(1) [symmetric] refl "1.prems"(1,2) this]
    show ?thesis
      using same o by (auto simp: samples_loop_sample profile_pairs_sample)
  next
    case change
    have mem: "pair_at (sw_data parser) offset \<in> set (gasmix_table parser)"
      using "1.prems"(3) change by (simp add: profile_pairs_sample)
    from samples_sample_change [OF change(3) mem "1.prems"(1,2)] obtain out s' idx where
      o: "samples_sample parser offset s = (out, Inr s')" "sample_gasmixes out = [idx]"
        "idx < ngasmixes parser" "gasmix_table parser ! idx = pair_at (sw_data parser) offset"
        "ss_previous s' = pair_at (sw_data parser) offset" by blast
    have "set (gas_changes (ss_previous s')
               (profile_pairs (sw_data parser) (petrel parser) (offset + ?ss) len))
           \<subseteq> set (gasmix_table parser)"
      using "1.prems"(3) change o(5) by (simp add: profile_pairs_sample)
    from "1.IH"(2) [OF change(1,2) o(1) [symmetric] refl "1.prems"(1,2) this]
    show ?thesis
      using change o by (auto simp: samples_loop_sample profile_pairs_sample)
  qed
qed

lemma cache_too_short:
  "cached parser = 0 \<Longrightarrow> blob_too_short parser \<Longrightarrow>
     shearwater_predator_parser_cache parser = (DC_STATUS_DATAFORMAT, parser)"
  by (auto simp: shearwater_predator_parser_cache_def Let_def blob_too_short_def)

lemma cache_cached:
  "cached parser \<noteq> 0 \<Longrightarrow> shearwater_predator_parser_cache parser = (DC_STATUS_SUCCESS, parser)"
  by (simp add: shearwater_predator_parser_cache_def Let_def)

lemma changes_in_mix_list:
  "set (gas_changes (0, 0) (profile_mixes parser)) \<subseteq> set (mix_list parser)"
proof -
  have "set (gas_changes (0, 0) (profile_mixes parser))
      = set (first_occurrences (gas_changes (0, 0) (profile_mixes parser)))"
    by simp
  then show ?thesis
    by (simp only: first_occurrences_changes mix_list_def)
qed

text \<open>The sample loop after a successful cache pass on a parser whose cache was empty.\<close>

lemma samples_after_cache:
  assumes "cached parser = 0"
    and "shearwater_predator_parser_cache parser = (DC_STATUS_SUCCESS, parser1)"
  shows "\<exists>out. shearwater_predator_parser_samples_foreach parser = (DC_STATUS_SUCCESS, out, parser1)
           \<and> shearwater_predator_parser_samples_foreach parser1 = (DC_STATUS_SUCCESS, out, parser1)
           \<and> (\<forall>i \<in> set (sample_gasmixes out). i < ngasmixes parser1)
           \<and> map (\<lambda>i. gasmix_table parser1 ! i) (sample_gasmixes out)
               = gas_changes (0, 0) (profile_mixes parser)
           \<and> gasmix_table parser1 = mix_list parser
           \<and> ngasmixes parser1 = length (mix_list parser)"
proof -
  have short: "\<not> blob_too_short parser"
    using assms cache_too_short [of parser] by auto
  have le: "length (mix_list parser) \<le> NGASMIXES"
    using assms cache_result [OF assms(1) short] by (auto split: if_splits)
  from cache_result [OF assms(1) short] le assms(2) have
    p1: "gasmix_table parser1 = mix_list parser" "ngasmixes parser1 = length (mix_list parser)"
      "ngasmixes parser1 \<le> length (oxygen parser1)" "ngasmixes parser1 \<le> length (helium parser1)"
      "sw_data parser1 = sw_data parser" "petrel parser1 = petrel parser"
      "headersize parser1 = SZ_BLOCK" "footersize parser1 = cache_footersize parser"
      "cached parser1 = 1"
    by auto
  let ?s0 = "\<lparr>ss_time = 0, ss_o2_previous = 0, ss_he_previous = 0\<rparr>"
  have prev: "ss_previous ?s0 = (0, 0)"
    by (simp add: ss_previous_def)
  have pairs: "profile_pairs (sw_data parser1) (petrel parser1) SZ_BLOCK
                 (length (sw_data parser1) - cache_footersize parser) = profile_mixes parser"
    by (simp add: profile_mixes_def p1)
  have sub: "set (gas_changes (ss_previous ?s0)
               (profile_pairs (sw_data parser1) (petrel parser1) SZ_BLOCK
                  (length (sw_data parser1) - cache_footersize parser)))
           \<subseteq> set (gasmix_table parser1)"
    using changes_in_mix_list [of parser] by (simp only: prev pairs p1(1))
  from samples_loop_indices [OF p1(3,4) sub] obtain out where
    out: "samples_loop parser1 SZ_BLOCK (length (sw_data parser1) - cache_footersize parser) ?s0
            = (DC_STATUS_SUCCESS, out)"
      "\<forall>i \<in> set (sample_gasmixes out). i < ngasmixes parser1"
      "map (\<lambda>i. gasmix_table parser1 ! i) (sample_gasmixes out)
         = gas_changes (0, 0) (profile_mixes parser)"
    unfolding prev pairs by blast
  have c1: "shearwater_predator_parser_cache parser1 = (DC_STATUS_SUCCESS, parser1)"
    using p1(9) by (simp add: cache_cached)
  have "shearwater_predator_parser_samples_foreach parser = (DC_STATUS_SUCCESS, out, parser1)"
    using assms(2) out(1) p1(7,8) by (simp add: shearwater_predator_parser_samples_foreach_def)
  moreover have "shearwater_predator_parser_samples_foreach parser1 = (DC_STATUS_SUCCESS, out, parser1)"
    using c1 out(1) p1(7,8) by (simp add: shearwater_predator_parser_samples_foreach_def)
  ultimately show ?thesis
    using out(2,3) p1(1,2) by blast
qed

subsection \<open>Concrete Predator blobs\<close>

lemmas demo_defs = demo_parser_def shearwater_predator_parser_set_data_def
  shearwater_common_parser_create_def demo_blob_def demo_sample_def

lemmas cache_eval = shearwater_predator_parser_cache_def cache_footersize_def SZ_BLOCK_def
  array_uint16_be_def Let_def nth_append NGASMIXES_def gas_scan_init_def cache_loop.simps
  samplesize_def SZ_SAMPLE_PREDATOR_def array_isequal_def cache_sample_def OC_def
  gasmix_search.simps

lemma demo_three_count:
  "shearwater_get_gasmix_count (demo_parser [(21, 0), (32, 0), (21, 0)]) = Inr 2"
  apply (simp add: shearwater_get_gasmix_count_def demo_defs)
  apply (simp add: cache_eval)
  done

lemma demo_three_cache:
  "fst (shearwater_predator_parser_cache (demo_parser [(21, 0), (32, 0), (21, 0)])) = DC_STATUS_SUCCESS"
  apply (simp add: demo_defs)
  apply (simp add: cache_eval)
  done

lemma demo_three_samples:
  "sample_gasmixes (fst (snd (shearwater_predator_parser_samples_foreach
       (demo_parser [(21, 0), (32, 0), (21, 0)])))) = [0, 1, 0]"
  apply (simp add: shearwater_predator_parser_samples_foreach_def demo_defs)
  apply (simp add: cache_eval)
  apply (simp add: samples_loop.simps samplesize_def SZ_SAMPLE_PREDATOR_def array_isequal_def
      samples_sample_def Let_def OC_def shearwater_predator_find_gasmix_def gasmix_search.simps
      nth_append sample_deco_def array_uint16_be_def SZ_BLOCK_def)
  done

lemma demo_zero_first_count:
  "shearwater_get_gasmix_count (demo_parser [(0, 0), (32, 0)]) = Inr 1"
  apply (simp add: shearwater_get_gasmix_count_def demo_defs)
  apply (simp add: cache_eval)
  done

lemma demo_zero_first_pairs:
  "profile_mixes (demo_parser [(0, 0), (32, 0)]) = [(0, 0), (32, 0)]"
  apply (simp add: profile_mixes_def demo_defs)
  apply (simp add: cache_footersize_def SZ_BLOCK_def array_uint16_be_def nth_append
      profile_pairs.simps samplesize_def SZ_SAMPLE_PREDATOR_def array_isequal_def)
  done

lemma demo_eleven_pairs:
  "profile_mixes (demo_parser demo_eleven) =
     [(21, 0), (22, 0), (23, 0), (24, 0), (25, 0), (26, 0), (27, 0), (28, 0), (29, 0),
      (30, 0), (31, 0)]"
  apply (simp add: profile_mixes_def demo_defs demo_eleven_def)
  apply (simp add: cache_footersize_def SZ_BLOCK_def array_uint16_be_def nth_append
      profile_pairs.simps samplesize_def SZ_SAMPLE_PREDATOR_def array_isequal_def)
  done

lemma demo_three_pairs:
  "profile_mixes (demo_parser [(21, 0), (32, 0), (21, 0)]) = [(21, 0), (32, 0), (21, 0)]"
  apply (simp add: profile_mixes_def demo_defs)
  apply (simp add: cache_footersize_def SZ_BLOCK_def array_uint16_be_def nth_append
      profile_pairs.simps samplesize_def SZ_SAMPLE_PREDATOR_def array_isequal_def)
  done

lemma demo_fresh:
  "cached (demo_parser mixes) = 0" "\<not> blob_too_short (demo_parser mixes)"
  by (simp_all add: demo_defs blob_too_short_def cache_footersize_def SZ_BLOCK_def
      array_uint16_be_def)

lemma mix_list_three:
  "mix_list (demo_parser [(21, 0), (32, 0), (21, 0)]) = [(21, 0), (32, 0)]"
  by (simp add: mix_list_def demo_three_pairs)

lemma mix_list_eleven: "length (mix_list (demo_parser demo_eleven)) = 11"
  by (simp add: mix_list_def demo_eleven_pairs)

text \<open>
  Claim C5, as stated, fails: the scan starts with (0, 0) as the previous pair, so a
  profile whose first sample carries the pair (0, 0) has two distinct pairs, (0, 0) and
  (32, 0), but a gas-mix count of 1.
\<close>

theorem gasmix_count_zero_pair_counterexample:
  "profile_mixes (demo_parser [(0, 0), (32, 0)]) = [(0, 0), (32, 0)]
   \<and> length (first_occurrences [(0 :: nat, 0 :: nat), (32, 0)]) = 2
   \<and> shearwater_get_gasmix_count (demo_parser [(0, 0), (32, 0)]) = Inr 1"
  by (simp add: demo_zero_first_pairs demo_zero_first_count)

text \<open>
  Claim C5, amended. On a parser whose cache is empty and whose blob passes the size
  checks, the cache pass collects the distinct (O2, He) pairs of the non-empty profile
  samples in order of first appearance, leaving out (0, 0) samples that come before the
  first other pair (\<open>mix_list\<close>). With at most 10 of them the pass succeeds, the table
  is that list, its length is the gas-mix count, and the GasMix indices of the sample
  loop are the positions in the list of the successive gas changes. With more than 10
  the result is \<open>DC_STATUS_NOMEMORY\<close>. The profile (21,0), (32,0), (21,0) gives the count
  2 and the indices 0, 1, 0.
\<close>

theorem gasmix_table_first_appearance:
  "(cached parser = 0 \<and> \<not> blob_too_short parser \<and> length (mix_list parser) \<le> 10 \<longrightarrow>
      shearwater_get_gasmix_count parser = Inr (length (mix_list parser))
      \<and> fst (shearwater_predator_parser_cache parser) = DC_STATUS_SUCCESS
      \<and> gasmix_table (snd (shearwater_predator_parser_cache parser)) = mix_list parser
      \<and> fst (shearwater_predator_parser_samples_foreach parser) = DC_STATUS_SUCCESS
      \<and> map (\<lambda>i. mix_list parser ! i)
           (sample_gasmixes (fst (snd (shearwater_predator_parser_samples_foreach parser))))
         = gas_changes (0, 0) (profile_mixes parser))
   \<and> (cached parser' = 0 \<and> \<not> blob_too_short parser' \<and> 10 < length (mix_list parser') \<longrightarrow>
      shearwater_get_gasmix_count parser' = Inl DC_STATUS_NOMEMORY)
   \<and> shearwater_get_gasmix_count (demo_parser [(21, 0), (32, 0), (21, 0)]) = Inr 2
   \<and> sample_gasmixes (fst (snd (shearwater_predator_parser_samples_foreach
        (demo_parser [(21, 0), (32, 0), (21, 0)])))) = [0, 1, 0]"
proof (intro conjI impI)
  assume a: "cached parser = 0 \<and> \<not> blob_too_short parser \<and> length (mix_list parser) \<le> 10"
  then obtain parser1 where
    c: "shearwater_predator_parser_cache parser = (DC_STATUS_SUCCESS, parser1)"
    using cache_result [of parser] by (auto simp: NGASMIXES_def)
  have "cached parser = 0" using a by simp
  from samples_after_cache [OF this c] obtain out where
    out: "shearwater_predator_parser_samples_foreach parser = (DC_STATUS_SUCCESS, out, parser1)"
      "map (\<lambda>i. gasmix_table parser1 ! i) (sample_gasmixes out)
               = gas_changes (0, 0) (profile_mixes parser)"
      "gasmix_table parser1 = mix_list parser" "ngasmixes parser1 = length (mix_list parser)"
    by blast
  show "shearwater_get_gasmix_count parser = Inr (length (mix_list parser))"
    using c out(4) by (simp add: shearwater_get_gasmix_count_def)
  show "fst (shearwater_predator_parser_cache parser) = DC_STATUS_SUCCESS"
    using c by simp
  show "gasmix_table (snd (shearwater_predator_parser_cache parser)) = mix_list parser"
    using c out(3) by simp
  show "fst (shearwater_predator_parser_samples_foreach parser) = DC_STATUS_SUCCESS"
    using out(1) by simp
  show "map (\<lambda>i. mix_list parser ! i)
           (sample_gasmixes (fst (snd (shearwater_predator_parser_samples_foreach parser))))
         = gas_changes (0, 0) (profile_mixes parser)"
    using out(1,2,3) by simp
next
  assume "cached parser' = 0 \<and> \<not> blob_too_short parser' \<and> 10 < length (mix_list parser')"
  then show "shearwater_get_gasmix_count parser' = Inl DC_STATUS_NOMEMORY"
    using cache_result [of parser']
    by (auto simp: NGASMIXES_def shearwater_get_gasmix_count_def)
next
  show "shearwater_get_gasmix_count (demo_parser [(21, 0), (32, 0), (21, 0)]) = Inr 2"
    by (rule demo_three_count)
next
  show "sample_gasmixes (fst (snd (shearwater_predator_parser_samples_foreach
        (demo_parser [(21, 0), (32, 0), (21, 0)])))) = [0, 1, 0]"
    by (rule demo_three_samples)
qed

theorem gasmix_table_first_appearance_witness:
  "cached (demo_parser [(21, 0), (32, 0), (21, 0)]) = 0
   \<and> \<not> blob_too_short (demo_parser [(21, 0), (32, 0), (21, 0)])
   \<and> length (mix_list (demo_parser [(21, 0), (32, 0), (21, 0)])) \<le> 10
   \<and> mix_list (demo_parser [(21, 0), (32, 0), (21, 0)]) = [(21, 0), (32, 0)]
   \<and> gasmix_table (snd (shearwater_predator_parser_cache (demo_parser [(21, 0), (32, 0), (21, 0)])))
       = [(21, 0), (32, 0)]
   \<and> cached (demo_parser demo_eleven) = 0
   \<and> \<not> blob_too_short (demo_parser demo_eleven)
   \<and> 10 < length (mix_list (demo_parser demo_eleven))
   \<and> shearwater_get_gasmix_count (demo_parser demo_eleven) = Inl DC_STATUS_NOMEMORY"
  using gasmix_table_first_appearance [of "demo_parser [(21, 0), (32, 0), (21, 0)]"
      "demo_parser demo_eleven"]
  by (simp add: demo_fresh mix_list_three mix_list_eleven)

text \<open>
  Claim C10. When the cache pass succeeds on a parser whose cache is empty (as
  \<open>set_data\<close> leaves it), every gas change the sample loop meets in the same blob is in
  the cached table: the sample loop, run on the parser before or after the cache is
  filled, returns \<open>DC_STATUS_SUCCESS\<close>, never the \<open>DC_STATUS_DATAFORMAT\<close> of its
  "Invalid gas mix" branch, and every GasMix index it emits is below the gas-mix count.
\<close>

theorem gasmix_lookup_never_fails:
  assumes "cached parser = 0"
    and "shearwater_predator_parser_cache parser = (DC_STATUS_SUCCESS, parser1)"
  shows "set (gas_changes (0, 0) (profile_mixes parser)) \<subseteq> set (gasmix_table parser1)
       \<and> fst (shearwater_predator_parser_samples_foreach parser) = DC_STATUS_SUCCESS
       \<and> fst (shearwater_predator_parser_samples_foreach parser1) = DC_STATUS_SUCCESS
       \<and> (\<forall>i \<in> set (sample_gasmixes (fst (snd (shearwater_predator_parser_samples_foreach parser)))).
             i < ngasmixes parser1)
       \<and> (\<forall>i \<in> set (sample_gasmixes (fst (snd (shearwater_predator_parser_samples_foreach parser1)))).
             i < ngasmixes parser1)"
proof -
  from samples_after_cache [OF assms] obtain out where
    out: "shearwater_predator_parser_samples_foreach parser = (DC_STATUS_SUCCESS, out, parser1)"
      "shearwater_predator_parser_samples_foreach parser1 = (DC_STATUS_SUCCESS, out, parser1)"
      "\<forall>i \<in> set (sample_gasmixes out). i < ngasmixes parser1"
      "gasmix_table parser1 = mix_list parser"
    by blast
  show ?thesis
    using out changes_in_mix_list [of parser] by simp
qed

theorem gasmix_lookup_never_fails_witness:
  "cached (demo_parser [(21, 0), (32, 0), (21, 0)]) = 0
   \<and> shearwater_predator_parser_cache (demo_parser [(21, 0), (32, 0), (21, 0)])
       = (DC_STATUS_SUCCESS,
          snd (shearwater_predator_parser_cache (demo_parser [(21, 0), (32, 0), (21, 0)])))
   \<and> fst (shearwater_predator_parser_samples_foreach (demo_parser [(21, 0), (32, 0), (21, 0)]))
       = DC_STATUS_SUCCESS
   \<and> sample_gasmixes (fst (snd (shearwater_predator_parser_samples_foreach
        (demo_parser [(21, 0), (32, 0), (21, 0)])))) = [0, 1, 0]
   \<and> ngasmixes (snd (shearwater_predator_parser_cache
                        (demo_parser [(21, 0), (32, 0), (21, 0)]))) = 2"
proof -
  have c: "shearwater_predator_parser_cache (demo_parser [(21, 0), (32, 0), (21, 0)])
       = (DC_STATUS_SUCCESS,
          snd (shearwater_predator_parser_cache (demo_parser [(21, 0), (32, 0), (21, 0)])))"
    using demo_three_cache by (simp add: prod_eq_iff)
  have n: "ngasmixes (snd (shearwater_predator_parser_cache
                        (demo_parser [(21, 0), (32, 0), (21, 0)]))) = 2"
    using demo_three_count demo_three_cache
    by (simp add: shearwater_get_gasmix_count_def split: prod.splits)
  show ?thesis
    using gasmix_lookup_never_fails [OF demo_fresh(1) c] c n
    by (simp only: demo_three_samples demo_fresh(1))
qed


subsection \<open>The most recent dive\<close>

lemma locate_latest_done:
  "\<not> i < RB_LOGBOOK_COUNT \<Longrightarrow> locate_latest skip erased number i acc = acc"
  by (cases acc) (simp add: locate_latest.simps)

lemma locate_latest_skip:
  "i < RB_LOGBOOK_COUNT \<Longrightarrow> erased i \<Longrightarrow>
     locate_latest True erased number i acc = locate_latest True erased number (i + 1) acc"
  by (cases acc) (simp add: locate_latest.simps [of _ _ _ i])

lemma locate_latest_break:
  "i < RB_LOGBOOK_COUNT \<Longrightarrow> erased i \<Longrightarrow> locate_latest False erased number i acc = acc"
  by (cases acc) (simp add: locate_latest.simps [of _ _ _ i])

lemma locate_latest_higher:
  "i < RB_LOGBOOK_COUNT \<Longrightarrow> \<not> erased i \<Longrightarrow> number i > maximum \<Longrightarrow>
     locate_latest skip erased number i (count, latest, maximum)
       = locate_latest skip erased number (i + 1) (count + 1, i, number i)"
  by (simp add: locate_latest.simps [of _ _ _ i])

lemma locate_latest_lower:
  "i < RB_LOGBOOK_COUNT \<Longrightarrow> \<not> erased i \<Longrightarrow> \<not> number i > maximum \<Longrightarrow>
     locate_latest skip erased number i (count, latest, maximum)
       = locate_latest skip erased number (i + 1) (count + 1, latest, maximum)"
  by (simp add: locate_latest.simps [of _ _ _ i])

lemma card_below_Suc:
  "card {j. j < Suc i \<and> P j} = card {j. j < i \<and> P j} + (if P i then 1 else 0)"
proof -
  have "{j. j < Suc i \<and> P j} = {j. j < i \<and> P j} \<union> (if P i then {i} else {})"
    by (auto simp: less_Suc_eq)
  moreover have "finite {j. j < i \<and> P j}" by simp
  ultimately show ?thesis by (simp split: if_splits)
qed

lemma located_erased:
  "located erased number i acc \<Longrightarrow> erased i \<Longrightarrow> located erased number (Suc i) acc"
  by (cases acc) (simp add: located_def card_below_Suc, auto simp: less_Suc_eq)

lemma located_higher:
  "located erased number i (count, latest, maximum) \<Longrightarrow> \<not> erased i \<Longrightarrow> number i > maximum \<Longrightarrow>
     located erased number (Suc i) (count + 1, i, number i)"
  by (simp add: located_def card_below_Suc, auto simp: less_Suc_eq)

lemma located_lower:
  "located erased number i (count, latest, maximum) \<Longrightarrow> \<not> erased i \<Longrightarrow> \<not> number i > maximum \<Longrightarrow>
     located erased number (Suc i) (count + 1, latest, maximum)"
  by (simp add: located_def card_below_Suc, auto simp: less_Suc_eq)

lemma located_start: "located erased number 0 (0, 0, 0)"
  by (simp add: located_def)

text \<open>
  The loop from slot \<open>i\<close> on: it ends at some \<open>m\<close>, which is the end of the logbook when
  erased slots are skipped, and otherwise the first erased slot, if there is one.
\<close>

lemma locate_latest_located:
  assumes "located erased number i acc" "i \<le> RB_LOGBOOK_COUNT"
    and "\<not> skip \<longrightarrow> (\<forall>j < i. \<not> erased j)"
  shows "\<exists>m. i \<le> m \<and> m \<le> RB_LOGBOOK_COUNT
           \<and> located erased number m (locate_latest skip erased number i acc)
           \<and> (skip \<longrightarrow> m = RB_LOGBOOK_COUNT)
           \<and> (\<not> skip \<longrightarrow> (\<forall>j < m. \<not> erased j) \<and> (m < RB_LOGBOOK_COUNT \<longrightarrow> erased m))"
  using assms
proof (induction skip erased number i acc rule: locate_latest.induct)
  case (1 skip erased number i count latest maximum)
  consider (stop) "\<not> i < RB_LOGBOOK_COUNT"
    | (skip) "i < RB_LOGBOOK_COUNT" "erased i" "skip"
    | (break) "i < RB_LOGBOOK_COUNT" "erased i" "\<not> skip"
    | (higher) "i < RB_LOGBOOK_COUNT" "\<not> erased i" "number i > maximum"
    | (lower) "i < RB_LOGBOOK_COUNT" "\<not> erased i" "\<not> number i > maximum"
    by blast
  then show ?case
  proof cases
    case stop
    then have "i = RB_LOGBOOK_COUNT" using "1.prems"(2) by simp
    then show ?thesis
      using "1.prems" stop by (auto simp: locate_latest_done)
  next
    case skip
    have "located erased number (i + 1) (count, latest, maximum)"
      using located_erased [OF "1.prems"(1) skip(2)] by simp
    from "1.IH"(1) [OF skip(1,2,3) this] skip "1.prems"
    obtain m where "i + 1 \<le> m" "m \<le> RB_LOGBOOK_COUNT"
      "located erased number m (locate_latest skip erased number (i + 1) (count, latest, maximum))"
      "m = RB_LOGBOOK_COUNT"
      by auto
    then show ?thesis
      using skip by (auto simp: locate_latest_skip intro!: exI [of _ m])
  next
    case break
    then show ?thesis
      using "1.prems" by (auto simp: locate_latest_break intro!: exI [of _ i])
  next
    case higher
    have l: "located erased number (i + 1) (count + 1, i, number i)"
      using located_higher [OF "1.prems"(1) higher(2,3)] by simp
    have a: "\<not> skip \<longrightarrow> (\<forall>j < i + 1. \<not> erased j)"
      using "1.prems"(3) higher(2) by (auto simp: less_Suc_eq)
    from "1.IH"(2) [OF higher(1,2) refl higher(3) l _ a] higher(1)
    obtain m where "i + 1 \<le> m" "m \<le> RB_LOGBOOK_COUNT"
      "located erased number m (locate_latest skip erased number (i + 1) (count + 1, i, number i))"
      "skip \<longrightarrow> m = RB_LOGBOOK_COUNT"
      "\<not> skip \<longrightarrow> (\<forall>j < m. \<not> erased j) \<and> (m < RB_LOGBOOK_COUNT \<longrightarrow> erased m)"
      by auto
    then show ?thesis
      using higher by (auto simp: locate_latest_higher intro!: exI [of _ m])
  next
    case lower
    have l: "located erased number (i + 1) (count + 1, latest, maximum)"
      using located_lower [OF "1.prems"(1) lower(2,3)] by simp
    have a: "\<not> skip \<longrightarrow> (\<forall>j < i + 1. \<not> erased j)"
      using "1.prems"(3) lower(2) by (auto simp: less_Suc_eq)
    from "1.IH"(3) [OF lower(1,2) refl lower(3) l _ a] lower(1)
    obtain m where "i + 1 \<le> m" "m \<le> RB_LOGBOOK_COUNT"
      "located erased number m (locate_latest skip erased number (i + 1) (count + 1, latest, maximum))"
      "skip \<longrightarrow> m = RB_LOGBOOK_COUNT"
      "\<not> skip \<longrightarrow> (\<forall>j < m. \<not> erased j) \<and> (m < RB_LOGBOOK_COUNT \<longrightarrow> erased m)"
      by auto
    then show ?thesis
      using lower by (auto simp: locate_latest_lower intro!: exI [of _ m])
  qed
qed


subsection \<open>The concrete logbooks\<close>

lemma locate_latest_erased_tail:
  "\<forall>j. i \<le> j \<and> j < RB_LOGBOOK_COUNT \<longrightarrow> erased j \<Longrightarrow>
     locate_latest True erased number i acc = acc"
proof (induction "RB_LOGBOOK_COUNT - i" arbitrary: i)
  case 0
  then show ?case by (simp add: locate_latest_done)
next
  case (Suc n)
  then have "i < RB_LOGBOOK_COUNT" by simp
  moreover have "erased i" using Suc.prems \<open>i < RB_LOGBOOK_COUNT\<close> by simp
  moreover have "locate_latest True erased number (i + 1) acc = acc"
    using Suc.hyps(1) [of "i + 1"] Suc.hyps(2) Suc.prems by simp
  ultimately show ?case by (simp add: locate_latest_skip)
qed

lemma demo_frog_slots:
  "\<not> hw_frog_erased demo_frog_logbook 0" "\<not> hw_frog_erased demo_frog_logbook 1"
  "\<not> hw_frog_erased demo_frog_logbook 2" "hw_frog_erased demo_frog_logbook 3"
  by (simp_all add: hw_frog_erased_def demo_frog_logbook_def demo_frog_entry_def
        RB_LOGBOOK_SIZE_def array_isequal_def list_all_iff)

lemma demo_frog_numbers:
  "hw_frog_number demo_frog_logbook 0 = 7" "hw_frog_number demo_frog_logbook 1 = 5"
  "hw_frog_number demo_frog_logbook 2 = 9"
  by (simp_all add: hw_frog_number_def demo_frog_logbook_def demo_frog_entry_def
        RB_LOGBOOK_SIZE_def array_uint16_le_def nth_append)

lemmas demo_frog_facts = demo_frog_slots demo_frog_numbers
  demo_frog_slots [unfolded One_nat_def] demo_frog_numbers [unfolded One_nat_def]

lemma demo_frog_located:
  "locate_latest False (hw_frog_erased demo_frog_logbook) (hw_frog_number demo_frog_logbook)
     0 (0, 0, 0) = (3, 2, 9)"
proof -
  let ?e = "hw_frog_erased demo_frog_logbook"
  let ?n = "hw_frog_number demo_frog_logbook"
  have "locate_latest False ?e ?n 0 (0, 0, 0) = locate_latest False ?e ?n (0 + 1) (0 + 1, 0, ?n 0)"
    by (rule locate_latest_higher) (simp_all add: demo_frog_facts RB_LOGBOOK_COUNT_def)
  also have "\<dots> = locate_latest False ?e ?n 1 (1, 0, 7)"
    by (simp add: demo_frog_facts)
  also have "\<dots> = locate_latest False ?e ?n (1 + 1) (1 + 1, 0, 7)"
    by (rule locate_latest_lower) (simp_all add: demo_frog_facts RB_LOGBOOK_COUNT_def)
  also have "\<dots> = locate_latest False ?e ?n 2 (2, 0, 7)"
    by (simp only: one_add_one)
  also have "\<dots> = locate_latest False ?e ?n (2 + 1) (2 + 1, 2, ?n 2)"
    by (rule locate_latest_higher) (simp_all add: demo_frog_facts RB_LOGBOOK_COUNT_def)
  also have "\<dots> = locate_latest False ?e ?n 3 (3, 2, 9)"
    by (simp add: demo_frog_facts)
  also have "\<dots> = (3, 2, 9)"
    by (rule locate_latest_break) (simp_all add: demo_frog_facts RB_LOGBOOK_COUNT_def)
  finally show ?thesis .
qed

lemma demo_ostc3_slots:
  "\<not> hw_ostc3_erased hw_ostc3_logbook_compact demo_ostc3_logbook 0"
  "\<not> hw_ostc3_erased hw_ostc3_logbook_compact demo_ostc3_logbook 1"
  "\<not> hw_ostc3_erased hw_ostc3_logbook_compact demo_ostc3_logbook 2"
  by (simp_all add: hw_ostc3_erased_def demo_ostc3_logbook_def demo_ostc3_entry_def
        hw_ostc3_logbook_compact_def RB_LOGBOOK_SIZE_COMPACT_def array_isequal_def)

lemma length_demo_ostc3_entry: "length (demo_ostc3_entry n) = 16"
  by (simp add: demo_ostc3_entry_def)

lemma demo_ostc3_erased:
  assumes "3 \<le> j" "j < 256"
  shows "hw_ostc3_erased hw_ostc3_logbook_compact demo_ostc3_logbook j"
proof -
  have d: "drop (j * 16) demo_ostc3_logbook
      = replicate (253 * 16 - (j * 16 - 48)) 0xFF @ replicate (240 * 256) 0"
    using assms by (simp add: demo_ostc3_logbook_def length_demo_ostc3_entry)
  have "16 \<le> 253 * 16 - (j * 16 - 48)" using assms by simp
  then have "take 16 (drop (j * 16) demo_ostc3_logbook) = replicate 16 0xFF"
    unfolding d by (simp add: min_def)
  then show ?thesis
    by (simp add: hw_ostc3_erased_def hw_ostc3_logbook_compact_def RB_LOGBOOK_SIZE_COMPACT_def
        array_isequal_def list_all_iff)
qed

lemma demo_ostc3_numbers:
  "hw_ostc3_number hw_ostc3_logbook_compact demo_ostc3_logbook 0 = 7"
  "hw_ostc3_number hw_ostc3_logbook_compact demo_ostc3_logbook 1 = 5"
  "hw_ostc3_number hw_ostc3_logbook_compact demo_ostc3_logbook 2 = 9"
  by (simp_all add: hw_ostc3_number_def demo_ostc3_logbook_def demo_ostc3_entry_def
        hw_ostc3_logbook_compact_def RB_LOGBOOK_SIZE_COMPACT_def array_uint16_le_def nth_append)

lemmas demo_ostc3_facts = demo_ostc3_slots demo_ostc3_numbers
  demo_ostc3_slots [unfolded One_nat_def] demo_ostc3_numbers [unfolded One_nat_def]

lemma demo_ostc3_located:
  "locate_latest True (hw_ostc3_erased hw_ostc3_logbook_compact demo_ostc3_logbook)
     (hw_ostc3_number hw_ostc3_logbook_compact demo_ostc3_logbook) 0 (0, 0, 0) = (3, 2, 9)"
proof -
  let ?e = "hw_ostc3_erased hw_ostc3_logbook_compact demo_ostc3_logbook"
  let ?n = "hw_ostc3_number hw_ostc3_logbook_compact demo_ostc3_logbook"
  have "locate_latest True ?e ?n 0 (0, 0, 0) = locate_latest True ?e ?n (0 + 1) (0 + 1, 0, ?n 0)"
    by (rule locate_latest_higher) (simp_all add: demo_ostc3_facts RB_LOGBOOK_COUNT_def)
  also have "\<dots> = locate_latest True ?e ?n 1 (1, 0, 7)"
    by (simp add: demo_ostc3_facts)
  also have "\<dots> = locate_latest True ?e ?n (1 + 1) (1 + 1, 0, 7)"
    by (rule locate_latest_lower) (simp_all add: demo_ostc3_facts RB_LOGBOOK_COUNT_def)
  also have "\<dots> = locate_latest True ?e ?n 2 (2, 0, 7)"
    by (simp only: one_add_one)
  also have "\<dots> = locate_latest True ?e ?n (2 + 1) (2 + 1, 2, ?n 2)"
    by (rule locate_latest_higher) (simp_all add: demo_ostc3_facts RB_LOGBOOK_COUNT_def)
  also have "\<dots> = locate_latest True ?e ?n 3 (3, 2, 9)"
    by (simp add: demo_ostc3_facts)
  also have "\<dots> = (3, 2, 9)"
    by (rule locate_latest_erased_tail) (simp add: demo_ostc3_erased RB_LOGBOOK_COUNT_def)
  finally show ?thesis .
qed

subsection \<open>A logbook with an erased slot between two dives\<close>

lemma demo_ostc3_gap_slots:
  "\<not> hw_ostc3_erased hw_ostc3_logbook_compact demo_ostc3_logbook_gap 0"
  "hw_ostc3_erased hw_ostc3_logbook_compact demo_ostc3_logbook_gap 1"
  "\<not> hw_ostc3_erased hw_ostc3_logbook_compact demo_ostc3_logbook_gap 2"
  by (simp_all add: hw_ostc3_erased_def demo_ostc3_logbook_gap_def demo_ostc3_entry_def
        hw_ostc3_logbook_compact_def RB_LOGBOOK_SIZE_COMPACT_def array_isequal_def list_all_iff)

lemma demo_ostc3_gap_erased:
  assumes "3 \<le> j" "j < 256"
  shows "hw_ostc3_erased hw_ostc3_logbook_compact demo_ostc3_logbook_gap j"
proof -
  have d: "drop (j * 16) demo_ostc3_logbook_gap
      = replicate (253 * 16 - (j * 16 - 48)) 0xFF @ replicate (240 * 256) 0"
    using assms by (simp add: demo_ostc3_logbook_gap_def length_demo_ostc3_entry)
  have "16 \<le> 253 * 16 - (j * 16 - 48)" using assms by simp
  then have "take 16 (drop (j * 16) demo_ostc3_logbook_gap) = replicate 16 0xFF"
    unfolding d by (simp add: min_def)
  then show ?thesis
    by (simp add: hw_ostc3_erased_def hw_ostc3_logbook_compact_def RB_LOGBOOK_SIZE_COMPACT_def
        array_isequal_def list_all_iff)
qed

lemma demo_ostc3_gap_numbers:
  "hw_ostc3_number hw_ostc3_logbook_compact demo_ostc3_logbook_gap 0 = 1"
  "hw_ostc3_number hw_ostc3_logbook_compact demo_ostc3_logbook_gap 2 = 5"
  by (simp_all add: hw_ostc3_number_def demo_ostc3_logbook_gap_def demo_ostc3_entry_def
        hw_ostc3_logbook_compact_def RB_LOGBOOK_SIZE_COMPACT_def array_uint16_le_def nth_append)

lemmas demo_ostc3_gap_facts = demo_ostc3_gap_slots demo_ostc3_gap_numbers
  demo_ostc3_gap_slots(2) [unfolded One_nat_def]

lemma demo_ostc3_gap_located:
  "locate_latest True (hw_ostc3_erased hw_ostc3_logbook_compact demo_ostc3_logbook_gap)
     (hw_ostc3_number hw_ostc3_logbook_compact demo_ostc3_logbook_gap) 0 (0, 0, 0) = (2, 2, 5)"
proof -
  let ?e = "hw_ostc3_erased hw_ostc3_logbook_compact demo_ostc3_logbook_gap"
  let ?n = "hw_ostc3_number hw_ostc3_logbook_compact demo_ostc3_logbook_gap"
  have "locate_latest True ?e ?n 0 (0, 0, 0) = locate_latest True ?e ?n (0 + 1) (0 + 1, 0, ?n 0)"
    by (rule locate_latest_higher) (simp_all add: demo_ostc3_gap_facts RB_LOGBOOK_COUNT_def)
  also have "\<dots> = locate_latest True ?e ?n 1 (1, 0, 1)"
    by (simp add: demo_ostc3_gap_facts)
  also have "\<dots> = locate_latest True ?e ?n (1 + 1) (1, 0, 1)"
    by (rule locate_latest_skip) (simp_all add: demo_ostc3_gap_facts RB_LOGBOOK_COUNT_def)
  also have "\<dots> = locate_latest True ?e ?n 2 (1, 0, 1)"
    by (simp only: one_add_one)
  also have "\<dots> = locate_latest True ?e ?n (2 + 1) (1 + 1, 2, ?n 2)"
    by (rule locate_latest_higher) (simp_all add: demo_ostc3_gap_facts RB_LOGBOOK_COUNT_def)
  also have "\<dots> = locate_latest True ?e ?n 3 (2, 2, 5)"
    by (simp only: demo_ostc3_gap_numbers one_add_one) simp
  also have "\<dots> = (2, 2, 5)"
    by (rule locate_latest_erased_tail) (simp add: demo_ostc3_gap_erased RB_LOGBOOK_COUNT_def)
  finally show ?thesis .
qed

text \<open>
  Claim C8, at a concrete input. The logbook holds dive 1 in slot 0, an erased slot 1 and
  dive 5 in slot 2. The scan of \<open>hw_frog_device_foreach\<close> leaves its loop at the erased
  slot (\<open>break\<close>, under the comment "Ignore uninitialized header entries"): one entry is
  counted and slot 0 is selected, although slot 2 is not erased and holds the larger
  dive number. The scan of \<open>hw_ostc3_device_foreach\<close>, under the same comment, says
  \<open>continue\<close>: on the same dives it counts two entries and selects slot 2, as the claim
  says.
\<close>

theorem frog_scan_stops_at_erased_slot:
  "locate_latest False (hw_frog_erased demo_frog_logbook_gap)
      (hw_frog_number demo_frog_logbook_gap) 0 (0, 0, 0) = (1, 0, 1)
   \<and> \<not> hw_frog_erased demo_frog_logbook_gap 2
   \<and> hw_frog_number demo_frog_logbook_gap 2 = 5
   \<and> locate_latest True (hw_ostc3_erased hw_ostc3_logbook_compact demo_ostc3_logbook_gap)
         (hw_ostc3_number hw_ostc3_logbook_compact demo_ostc3_logbook_gap) 0 (0, 0, 0)
       = (2, 2, 5)"
proof -
  have e0: "\<not> hw_frog_erased demo_frog_logbook_gap 0"
    by (simp add: hw_frog_erased_def demo_frog_logbook_gap_def demo_frog_entry_def
        RB_LOGBOOK_SIZE_def array_isequal_def)
  have n0: "hw_frog_number demo_frog_logbook_gap 0 = 1"
    by (simp add: hw_frog_number_def demo_frog_logbook_gap_def demo_frog_entry_def
        RB_LOGBOOK_SIZE_def array_uint16_le_def nth_append)
  have e1: "hw_frog_erased demo_frog_logbook_gap 1"
    by (simp add: hw_frog_erased_def demo_frog_logbook_gap_def demo_frog_entry_def
        RB_LOGBOOK_SIZE_def array_isequal_def list_all_iff)
  have e2: "\<not> hw_frog_erased demo_frog_logbook_gap 2"
    by (simp add: hw_frog_erased_def demo_frog_logbook_gap_def demo_frog_entry_def
        RB_LOGBOOK_SIZE_def array_isequal_def)
  have n2: "hw_frog_number demo_frog_logbook_gap 2 = 5"
    by (simp add: hw_frog_number_def demo_frog_logbook_gap_def demo_frog_entry_def
        RB_LOGBOOK_SIZE_def array_uint16_le_def nth_append)
  have "locate_latest False (hw_frog_erased demo_frog_logbook_gap)
      (hw_frog_number demo_frog_logbook_gap) 0 (0, 0, 0) = (1, 0, 1)"
    using e0 n0 e1
    by (simp add: locate_latest_higher locate_latest_break RB_LOGBOOK_COUNT_def)
  then show ?thesis using e2 n2 by (simp add: demo_ostc3_gap_located)
qed

subsection \<open>The dives that are due\<close>

lemma walk_back_stop:
  "\<not> i < count \<Longrightarrow> walk_back check dl fp latest count i acc = Inr acc"
  by (cases acc) (simp add: walk_back.simps)

lemma walk_back_due:
  "walk_back check dl fp latest count i (nd, ms) = Inr (nd', ms') \<Longrightarrow> i \<le> count \<Longrightarrow>
     nd \<le> nd' \<and> i + (nd' - nd) \<le> count
     \<and> (\<forall>k. i \<le> k \<and> k < i + (nd' - nd) \<longrightarrow>
            check (slot_index latest k) = Slot_Ok \<and> \<not> fp (slot_index latest k))"
proof (induction "count - i" arbitrary: i nd ms)
  case 0
  then show ?case by (auto simp: walk_back_stop)
next
  case (Suc n)
  then have lt: "i < count" by simp
  show ?case
  proof (cases "check (slot_index latest i) = Slot_Ok \<and> \<not> fp (slot_index latest i)")
    case False
    then have "nd' = nd"
      using Suc.prems(1) lt
      by (subst (asm) walk_back.simps) (auto simp: Let_def split: slot_check.splits if_splits)
    then show ?thesis using lt by auto
  next
    case True
    then have "walk_back check dl fp latest count (i + 1)
        (nd + 1, if dl (slot_index latest i) > ms then dl (slot_index latest i) else ms)
          = Inr (nd', ms')"
      using Suc.prems(1) lt by (subst (asm) walk_back.simps) (simp add: Let_def)
    moreover have "n = count - (i + 1)" "i + 1 \<le> count" using Suc.hyps(2) lt by simp_all
    ultimately have "nd + 1 \<le> nd' \<and> i + 1 + (nd' - (nd + 1)) \<le> count
       \<and> (\<forall>k. i + 1 \<le> k \<and> k < i + 1 + (nd' - (nd + 1)) \<longrightarrow>
              check (slot_index latest k) = Slot_Ok \<and> \<not> fp (slot_index latest k))"
      using Suc.hyps(1) by blast
    then have ih: "nd + 1 \<le> nd'" "i + 1 + (nd' - (nd + 1)) \<le> count"
      and rest: "\<And>k. i + 1 \<le> k \<and> k < i + 1 + (nd' - (nd + 1)) \<Longrightarrow>
              check (slot_index latest k) = Slot_Ok \<and> \<not> fp (slot_index latest k)"
      by blast+
    have "\<And>k. i \<le> k \<Longrightarrow> k < i + (nd' - nd) \<Longrightarrow>
            check (slot_index latest k) = Slot_Ok \<and> \<not> fp (slot_index latest k)"
    proof -
      fix k assume k: "i \<le> k" "k < i + (nd' - nd)"
      show "check (slot_index latest k) = Slot_Ok \<and> \<not> fp (slot_index latest k)"
      proof (cases "k = i")
        case True
        then show ?thesis using \<open>check (slot_index latest i) = Slot_Ok \<and> \<not> fp (slot_index latest i)\<close>
          by simp
      next
        case False
        then have "i + 1 \<le> k \<and> k < i + 1 + (nd' - (nd + 1))" using k ih by arith
        then show ?thesis by (rule rest)
      qed
    qed
    moreover have "nd \<le> nd'" "i + (nd' - nd) \<le> count" using ih by arith+
    ultimately show ?thesis by blast
  qed
qed

subsection \<open>The calls of the download loop\<close>

lemma download_dives_stop:
  "\<not> i < ndives \<Longrightarrow> download_dives dive latest ndives i s = (DC_STATUS_SUCCESS, [], s)"
  by (simp add: download_dives.simps)

lemma download_dive_calls:
  "download_dive tr verify sz sh dl fo cb idx s = Download_Next calls s1 \<Longrightarrow>
     calls = [] \<and> cb = None \<or> map fst calls = [idx]"
  "download_dive tr verify sz sh dl fo cb idx s = Download_Return rc calls s1 \<Longrightarrow>
     calls = [] \<or> map fst calls = [idx]"
  by (auto simp: download_dive_def Let_def split: prod.splits if_splits option.splits)

lemma download_dive_no_callback:
  "download_dive tr verify sz sh dl fo None idx s = Download_Next calls s1 \<Longrightarrow> calls = []"
  "download_dive tr verify sz sh dl fo None idx s = Download_Return rc calls s1 \<Longrightarrow> calls = []"
  by (auto simp: download_dive_def Let_def split: prod.splits if_splits)

lemma download_dives_no_callback:
  "fst (snd (download_dives (download_dive tr verify sz sh dl fo None) latest ndives i s)) = []"
proof (induction "ndives - i" arbitrary: i s)
  case 0
  then show ?case by (simp add: download_dives_stop)
next
  case (Suc n)
  then have lt: "i < ndives" and n: "n = ndives - (i + 1)" by simp_all
  let ?dive = "download_dive tr verify sz sh dl fo None"
  show ?case
  proof (cases "?dive (slot_index latest i) s")
    case (Download_Return rc calls s1)
    then have "fst (snd (download_dives ?dive latest ndives i s)) = calls"
      using lt by (subst download_dives.simps) simp
    then show ?thesis using download_dive_no_callback(2) [OF Download_Return] by simp
  next
    case (Download_Next calls s1)
    then have "fst (snd (download_dives ?dive latest ndives i s))
        = calls @ fst (snd (download_dives ?dive latest ndives (i + 1) s1))"
      using lt by (subst download_dives.simps) (simp split: prod.splits)
    then show ?thesis
      using download_dive_no_callback(1) [OF Download_Next] Suc.hyps(1) [OF n, of s1] by simp
  qed
qed

lemma download_dives_calls:
  "\<exists>n. i + n \<le> max i ndives
      \<and> map fst (fst (snd (download_dives (download_dive tr verify sz sh dl fo (Some cb))
                                latest ndives i s)))
          = map (slot_index latest) [i..<i + n]"
proof (induction "ndives - i" arbitrary: i s)
  case 0
  then have "map fst (fst (snd (download_dives (download_dive tr verify sz sh dl fo (Some cb))
                                latest ndives i s))) = map (slot_index latest) [i..<i + 0]"
    by (simp add: download_dives_stop)
  then show ?case by (intro exI [of _ 0]) simp
next
  case (Suc m)
  then have lt: "i < ndives" and m: "m = ndives - (i + 1)" by simp_all
  let ?dive = "download_dive tr verify sz sh dl fo (Some cb)"
  show ?case
  proof (cases "?dive (slot_index latest i) s")
    case (Download_Return rc calls s1)
    then have res: "fst (snd (download_dives ?dive latest ndives i s)) = calls"
      using lt by (subst download_dives.simps) simp
    from download_dive_calls(2) [OF Download_Return]
    have "calls = [] \<or> map fst calls = [slot_index latest i]" .
    then show ?thesis
    proof
      assume "calls = []"
      then have "map fst (fst (snd (download_dives ?dive latest ndives i s)))
                   = map (slot_index latest) [i..<i + 0]"
        using res by simp
      then show ?thesis by (intro exI [of _ 0]) simp
    next
      assume "map fst calls = [slot_index latest i]"
      then have "map fst (fst (snd (download_dives ?dive latest ndives i s)))
                   = map (slot_index latest) [i..<i + 1]"
        using res by simp
      then show ?thesis using lt by (intro exI [of _ 1]) simp
    qed
  next
    case (Download_Next calls s1)
    then have res: "fst (snd (download_dives ?dive latest ndives i s))
        = calls @ fst (snd (download_dives ?dive latest ndives (i + 1) s1))"
      using lt by (subst download_dives.simps) (simp split: prod.splits)
    from download_dive_calls(1) [OF Download_Next]
    have c: "map fst calls = [slot_index latest i]" by simp
    from Suc.hyps(1) [OF m, of s1] obtain n where
      n: "i + 1 + n \<le> max (i + 1) ndives"
         "map fst (fst (snd (download_dives ?dive latest ndives (i + 1) s1)))
            = map (slot_index latest) [i + 1..<i + 1 + n]"
      by blast
    have "[i..<i + (n + 1)] = i # [i + 1..<i + 1 + n]"
      by (simp add: upt_rec [of i])
    then have "map fst (fst (snd (download_dives ?dive latest ndives i s)))
                 = map (slot_index latest) [i..<i + (n + 1)]"
      using res c n(2) by simp
    moreover have "i + (n + 1) \<le> max i ndives" using n(1) lt by simp
    ultimately show ?thesis by blast
  qed
qed

subsection \<open>Slots are met once\<close>

lemma slot_index_cases:
  assumes "latest < RB_LOGBOOK_COUNT" "i < RB_LOGBOOK_COUNT"
  shows "slot_index latest i = (if i \<le> latest then latest - i else latest + 256 - i)"
proof (cases "i \<le> latest")
  case True
  have a: "latest < 256" using assms by (simp add: RB_LOGBOOK_COUNT_def)
  from True have e: "latest + 256 - i = (latest - i) + 256" by simp
  have "(latest - i + 256) mod 256 = latest - i" using a by simp
  then show ?thesis using True unfolding slot_index_def RB_LOGBOOK_COUNT_def e by simp
next
  case False
  then show ?thesis using assms by (simp add: slot_index_def RB_LOGBOOK_COUNT_def)
qed

lemma slot_index_inj:
  "latest < RB_LOGBOOK_COUNT \<Longrightarrow> i < RB_LOGBOOK_COUNT \<Longrightarrow> j < RB_LOGBOOK_COUNT \<Longrightarrow>
     slot_index latest i = slot_index latest j \<Longrightarrow> i = j"
  by (simp add: slot_index_cases RB_LOGBOOK_COUNT_def split: if_splits)

lemma slot_index_distinct:
  assumes "latest < RB_LOGBOOK_COUNT" "n \<le> RB_LOGBOOK_COUNT"
  shows "distinct (map (slot_index latest) [0..<n])"
proof -
  have "inj_on (slot_index latest) (set [0..<n])"
  proof (rule inj_onI)
    fix i j
    assume "i \<in> set [0..<n]" "j \<in> set [0..<n]" "slot_index latest i = slot_index latest j"
    then show "i = j" using slot_index_inj [of latest i j] assms by simp
  qed
  then show ?thesis by (simp add: distinct_map)
qed


lemma locate_latest_bounds:
  assumes "locate_latest skip erased number 0 (0, 0, 0) = (count, latest, maximum)"
  shows "count \<le> RB_LOGBOOK_COUNT \<and> latest < RB_LOGBOOK_COUNT"
proof -
  from locate_latest_located [OF located_start, of skip erased number]
  obtain m where m: "m \<le> RB_LOGBOOK_COUNT" "located erased number m (count, latest, maximum)"
    using assms by auto
  have "{j. j < m \<and> \<not> erased j} \<subseteq> {..<m}" by auto
  then have "card {j. j < m \<and> \<not> erased j} \<le> card {..<m}" by (intro card_mono) simp_all
  then have "count \<le> m" using m(2) by (simp add: located_def)
  moreover have "latest < RB_LOGBOOK_COUNT"
  proof (cases "maximum > 0")
    case True
    then have "latest < m" using m(2) by (simp add: located_def)
    then show ?thesis using m(1) by simp
  next
    case False
    then have "latest = 0" using m(2) by (simp add: located_def)
    then show ?thesis by (simp add: RB_LOGBOOK_COUNT_def)
  qed
  ultimately show ?thesis using m(1) by simp
qed

lemma enumerate_dives_calls:
  assumes "locate_latest skip erased number 0 (0, 0, 0) = (count, latest, maximum)"
  shows "\<exists>n \<le> count.
           map fst (fst (snd (enumerate_dives skip erased number check dl fp
                                (download_dive tr verify sz sh dl' fo cb) device userdata)))
             = map (slot_index latest) [0..<n]
           \<and> (\<forall>k < n. check (slot_index latest k) = Slot_Ok \<and> \<not> fp (slot_index latest k))"
proof (cases "walk_back check dl fp latest count 0 (0, 0)")
  case (Inl e)
  then have "map fst (fst (snd (enumerate_dives skip erased number check dl fp
                                (download_dive tr verify sz sh dl' fo cb) device userdata)))
               = map (slot_index latest) [0..<0]"
    using assms by (simp add: enumerate_dives_def)
  then show ?thesis by (intro exI [of _ 0]) simp
next
  case (Inr r)
  obtain nd ms where r: "r = (nd, ms)" by (cases r)
  from walk_back_due [OF Inr [unfolded r]]
  have due: "nd \<le> count"
    "\<And>k. k < nd \<Longrightarrow> check (slot_index latest k) = Slot_Ok \<and> \<not> fp (slot_index latest k)"
    by simp_all
  let ?s = "\<lparr>dl_device = device, dl_profile = replicate ms 0, dl_userdata = userdata\<rparr>"
  have res: "fst (snd (enumerate_dives skip erased number check dl fp
                         (download_dive tr verify sz sh dl' fo cb) device userdata))
      = (if nd = 0 then []
         else fst (snd (download_dives (download_dive tr verify sz sh dl' fo cb) latest nd 0 ?s)))"
    using assms Inr r by (simp add: enumerate_dives_def split: prod.splits)
  show ?thesis
  proof (cases cb)
    case None
    then have "map fst (fst (snd (enumerate_dives skip erased number check dl fp
                                (download_dive tr verify sz sh dl' fo cb) device userdata)))
               = map (slot_index latest) [0..<0]"
      using res by (simp add: download_dives_no_callback)
    then show ?thesis by (intro exI [of _ 0]) simp
  next
    case (Some f)
    from download_dives_calls [of 0 nd tr verify sz sh dl' fo f latest ?s]
    obtain n where n: "n \<le> nd"
      "map fst (fst (snd (download_dives (download_dive tr verify sz sh dl' fo (Some f))
                            latest nd 0 ?s))) = map (slot_index latest) [0..<n]"
      by auto
    show ?thesis
    proof (cases "nd = 0")
      case True
      then have "map fst (fst (snd (enumerate_dives skip erased number check dl fp
                                (download_dive tr verify sz sh dl' fo cb) device userdata)))
               = map (slot_index latest) [0..<0]"
        using res by simp
      then show ?thesis by (intro exI [of _ 0]) simp
    next
      case False
      then have "map fst (fst (snd (enumerate_dives skip erased number check dl fp
                                (download_dive tr verify sz sh dl' fo cb) device userdata)))
               = map (slot_index latest) [0..<n]"
        using res n(2) Some by simp
      moreover have "n \<le> count" using n(1) due(1) by simp
      moreover have "\<forall>k < n. check (slot_index latest k) = Slot_Ok \<and> \<not> fp (slot_index latest k)"
        using due(2) n(1) by simp
      ultimately show ?thesis by blast
    qed
  qed
qed

text \<open>What both families guarantee about the slots handed to the callback.\<close>

lemma enumerate_dives_slots:
  "(let latest = fst (snd (locate_latest skip erased number 0 (0, 0, 0)));
        slots = map fst (fst (snd (enumerate_dives skip erased number check dl fp
                                (download_dive tr verify sz sh dl' fo cb) device userdata)))
    in length slots \<le> RB_LOGBOOK_COUNT \<and> distinct slots
         \<and> slots = map (slot_index latest) [0..<length slots]
         \<and> (\<forall>k < length slots. \<not> fp (slot_index latest k)))"
proof -
  define latest where "latest = fst (snd (locate_latest skip erased number 0 (0, 0, 0)))"
  define slots where "slots = map fst (fst (snd (enumerate_dives skip erased number check dl fp
                                (download_dive tr verify sz sh dl' fo cb) device userdata)))"
  obtain count l maximum where
    loc: "locate_latest skip erased number 0 (0, 0, 0) = (count, l, maximum)"
    by (cases "locate_latest skip erased number 0 (0, 0, 0)")
  then have l: "latest = l" by (simp add: latest_def)
  from enumerate_dives_calls [OF loc, of check dl fp tr verify sz sh dl' fo cb device userdata]
  obtain n where n: "n \<le> count" "slots = map (slot_index latest) [0..<n]"
    "\<forall>k < n. \<not> fp (slot_index latest k)"
    unfolding slots_def l by blast
  have len: "length slots = n" using n(2) by simp
  from locate_latest_bounds [OF loc]
  have b: "count \<le> RB_LOGBOOK_COUNT" "latest < RB_LOGBOOK_COUNT" using l by simp_all
  have "distinct slots"
    unfolding n(2) using b n(1) by (intro slot_index_distinct) simp_all
  then have "length slots \<le> RB_LOGBOOK_COUNT \<and> distinct slots
         \<and> slots = map (slot_index latest) [0..<length slots]
         \<and> (\<forall>k < length slots. \<not> fp (slot_index latest k))"
    using n b len by simp
  then show ?thesis unfolding Let_def latest_def slots_def .
qed

subsection \<open>Transfers over the queue port\<close>

lemma queue_ops_simps:
  "ops_write queue_ops rx bytes = (int (length bytes), rx)"
  "ops_read queue_ops rx n = ((int (length (take n rx)), take n rx), drop n rx)"
  "ops_get_received queue_ops rx = (0, rx)"
  "ops_cancelled queue_ops rx = False"
  by (simp_all add: queue_ops_def)

lemma queue_transfer_output:
  assumes "length out = n" "n \<le> 1024" "n \<le> length rx"
  shows "transfer_output queue_ops rx 0 n out = (DC_STATUS_SUCCESS, take n rx, drop n rx)"
proof (cases "n = 0")
  case True
  then show ?thesis using assms by (subst transfer_output.simps) simp
next
  case False
  have "transfer_output queue_ops rx 0 n out
          = transfer_output queue_ops (drop n rx) n n (take n rx)"
    using False assms
    by (subst transfer_output.simps) (simp add: queue_ops_simps Let_def read_buffer_def min_def)
  also have "\<dots> = (DC_STATUS_SUCCESS, take n rx, drop n rx)"
    by (subst transfer_output.simps) simp
  finally show ?thesis .
qed

lemma queue_frog_dive:
  assumes "length out = n" "length data = n" "n \<le> 1024"
  shows "hw_frog_transfer queue_ops \<lparr>frog_port = DIVE # data @ READY # rest, frog_fingerprint = fp\<rparr>
           DIVE (Some [i]) out
         = (DC_STATUS_SUCCESS, data, \<lparr>frog_port = rest, frog_fingerprint = fp\<rparr>)"
proof -
  have "transfer_output queue_ops (data @ READY # rest) 0 (length out) out
          = (DC_STATUS_SUCCESS, data, READY # rest)"
    using assms queue_transfer_output [of out n "data @ READY # rest"] by simp
  then show ?thesis
    by (simp add: hw_frog_transfer_def queue_ops_simps read_buffer_def transfer_data_def
        transfer_input_def transfer_ready_def DIVE_def INIT_def HEADER_def EXIT_def)
qed

subsection \<open>Runs over the Frog logbook with dives 7, 5 and 9\<close>

lemma length_demo_frog_entry: "length (demo_frog_entry n) = 256"
  by (simp add: demo_frog_entry_def)

lemma demo_frog_slot:
  "hw_frog_slot demo_frog_logbook 0 = demo_frog_entry 7"
  "hw_frog_slot demo_frog_logbook 1 = demo_frog_entry 5"
  "hw_frog_slot demo_frog_logbook 2 = demo_frog_entry 9"
  by (simp_all add: hw_frog_slot_def demo_frog_logbook_def RB_LOGBOOK_SIZE_def
        length_demo_frog_entry)

lemma demo_frog_pointers:
  "hw_frog_pointers demo_frog_logbook 0 = Slot_Ok"
  "hw_frog_pointers demo_frog_logbook 1 = Slot_Ok"
  "hw_frog_pointers demo_frog_logbook 2 = Slot_Ok"
  by (simp_all add: hw_frog_pointers_def hw_frog_begin_def hw_frog_end_def demo_frog_logbook_def
        demo_frog_entry_def RB_LOGBOOK_SIZE_def RB_PROFILE_BEGIN_def RB_PROFILE_END_def
        array_uint24_le_def nth_append)

lemma demo_frog_length:
  "hw_frog_length demo_frog_logbook 0 = 256"
  "hw_frog_length demo_frog_logbook 1 = 256"
  "hw_frog_length demo_frog_logbook 2 = 256"
  by (simp_all add: hw_frog_length_def hw_frog_begin_def hw_frog_end_def demo_frog_logbook_def
        demo_frog_entry_def RB_LOGBOOK_SIZE_def RB_PROFILE_BEGIN_def RB_PROFILE_END_def
        RB_PROFILE_DISTANCE_def ringbuffer_distance_def array_uint24_le_def nth_append)

lemma demo_frog_fp:
  "hw_frog_fp_match demo_frog_logbook fp 0 \<longleftrightarrow> fp = [7, 1, 1, 1, 1]"
  "hw_frog_fp_match demo_frog_logbook fp 1 \<longleftrightarrow> fp = [5, 1, 1, 1, 1]"
  "hw_frog_fp_match demo_frog_logbook fp 2 \<longleftrightarrow> fp = [9, 1, 1, 1, 1]"
  by (auto simp: hw_frog_fp_match_def demo_frog_logbook_def demo_frog_entry_def
        RB_LOGBOOK_SIZE_def)

lemma slot_index_2:
  "slot_index 2 0 = 2" "slot_index 2 1 = 1" "slot_index 2 2 = 0"
  "slot_index 2 (Suc 0) = 1"
  by (simp_all add: slot_index_def RB_LOGBOOK_COUNT_def)

lemma walk_back_next:
  "i < count \<Longrightarrow> check (slot_index latest i) = Slot_Ok \<Longrightarrow> \<not> fp (slot_index latest i) \<Longrightarrow>
     walk_back check dl fp latest count i (nd, ms)
       = walk_back check dl fp latest count (i + 1)
           (nd + 1, if dl (slot_index latest i) > ms then dl (slot_index latest i) else ms)"
  by (subst walk_back.simps) (simp add: Let_def)

lemma walk_back_match:
  "i < count \<Longrightarrow> check (slot_index latest i) = Slot_Ok \<Longrightarrow> fp (slot_index latest i) \<Longrightarrow>
     walk_back check dl fp latest count i (nd, ms) = Inr (nd, ms)"
  by (subst walk_back.simps) (simp add: Let_def)

lemmas demo_frog_walk_facts = slot_index_2 demo_frog_pointers demo_frog_length demo_frog_fp
  demo_frog_pointers(2) [unfolded One_nat_def] demo_frog_length(2) [unfolded One_nat_def]
  demo_frog_fp(2) [unfolded One_nat_def]

lemma demo_frog_walk_all:
  "walk_back (hw_frog_pointers demo_frog_logbook) (hw_frog_length demo_frog_logbook)
     (hw_frog_fp_match demo_frog_logbook (replicate 5 0)) 2 3 0 (0, 0) = Inr (3, 256)"
proof -
  let ?w = "walk_back (hw_frog_pointers demo_frog_logbook) (hw_frog_length demo_frog_logbook)
     (hw_frog_fp_match demo_frog_logbook (replicate 5 0)) 2 3"
  have r: "replicate 5 (0 :: byte) = [0, 0, 0, 0, 0]" by (simp add: numeral_eq_Suc)
  have "?w 0 (0, 0) = ?w (0 + 1) (0 + 1, 256)"
    by (subst walk_back_next) (simp_all add: demo_frog_walk_facts r)
  also have "\<dots> = ?w 1 (1, 256)" by simp
  also have "\<dots> = ?w (1 + 1) (1 + 1, 256)"
    by (subst walk_back_next) (simp_all add: demo_frog_walk_facts r)
  also have "\<dots> = ?w 2 (2, 256)" by (simp only: one_add_one)
  also have "\<dots> = ?w (2 + 1) (2 + 1, 256)"
    by (subst walk_back_next) (simp_all add: demo_frog_walk_facts r)
  also have "\<dots> = ?w 3 (3, 256)" by simp
  also have "\<dots> = Inr (3, 256)" by (rule walk_back_stop) simp
  finally show ?thesis .
qed

lemma demo_frog_walk_known:
  "walk_back (hw_frog_pointers demo_frog_logbook) (hw_frog_length demo_frog_logbook)
     (hw_frog_fp_match demo_frog_logbook [5, 1, 1, 1, 1]) 2 3 0 (0, 0) = Inr (1, 256)"
proof -
  let ?w = "walk_back (hw_frog_pointers demo_frog_logbook) (hw_frog_length demo_frog_logbook)
     (hw_frog_fp_match demo_frog_logbook [5, 1, 1, 1, 1]) 2 3"
  have "?w 0 (0, 0) = ?w (0 + 1) (0 + 1, 256)"
    by (subst walk_back_next) (simp_all add: demo_frog_walk_facts)
  also have "\<dots> = ?w 1 (1, 256)" by simp
  also have "\<dots> = Inr (1, 256)"
    by (rule walk_back_match) (simp_all add: demo_frog_walk_facts)
  finally show ?thesis .
qed

lemma download_dives_next:
  "i < ndives \<Longrightarrow> dive (slot_index latest i) s = Download_Next calls s1 \<Longrightarrow>
     download_dives dive latest ndives (i + 1) s1 = (rc, rest, s2) \<Longrightarrow>
     download_dives dive latest ndives i s = (rc, calls @ rest, s2)"
  by (subst download_dives.simps) simp

lemma download_dives_return:
  "i < ndives \<Longrightarrow> dive (slot_index latest i) s = Download_Return rc calls s1 \<Longrightarrow>
     download_dives dive latest ndives i s = (rc, calls, s1)"
  by (subst download_dives.simps) simp

lemma frog_dive_next:
  assumes "hw_frog_length header idx = 256" "hw_frog_slot header idx = data"
    "length data = 256" "length p = 256"
  shows "download_dive (hw_frog_dive_transfer queue_ops) True RB_LOGBOOK_SIZE (hw_frog_slot header)
           (hw_frog_length header) 9 (Some demo_callback) idx
           \<lparr>dl_device = \<lparr>frog_port = DIVE # data @ READY # rest, frog_fingerprint = fp\<rparr>,
            dl_profile = p, dl_userdata = u\<rparr>
         = Download_Next [(idx, data)]
             \<lparr>dl_device = \<lparr>frog_port = rest, frog_fingerprint = fp\<rparr>,
              dl_profile = data, dl_userdata = u\<rparr>"
proof -
  have "hw_frog_transfer queue_ops \<lparr>frog_port = DIVE # data @ READY # rest, frog_fingerprint = fp\<rparr>
           DIVE (Some [of_nat idx]) (take 256 p)
         = (DC_STATUS_SUCCESS, data, \<lparr>frog_port = rest, frog_fingerprint = fp\<rparr>)"
    using assms by (intro queue_frog_dive [of _ 256]) simp_all
  then show ?thesis
    using assms
    by (simp add: download_dive_def hw_frog_dive_transfer_def demo_callback_def
        RB_LOGBOOK_SIZE_def)
qed

lemma frog_dive_mismatch:
  assumes "hw_frog_length header idx = 256" "hw_frog_slot header idx \<noteq> data"
    "length data = 256" "length p = 256"
  shows "download_dive (hw_frog_dive_transfer queue_ops) True RB_LOGBOOK_SIZE (hw_frog_slot header)
           (hw_frog_length header) 9 (Some demo_callback) idx
           \<lparr>dl_device = \<lparr>frog_port = DIVE # data @ READY # rest, frog_fingerprint = fp\<rparr>,
            dl_profile = p, dl_userdata = u\<rparr>
         = Download_Return DC_STATUS_SUCCESS []
             \<lparr>dl_device = \<lparr>frog_port = rest, frog_fingerprint = fp\<rparr>,
              dl_profile = data, dl_userdata = u\<rparr>"
proof -
  have "hw_frog_transfer queue_ops \<lparr>frog_port = DIVE # data @ READY # rest, frog_fingerprint = fp\<rparr>
           DIVE (Some [of_nat idx]) (take 256 p)
         = (DC_STATUS_SUCCESS, data, \<lparr>frog_port = rest, frog_fingerprint = fp\<rparr>)"
    using assms by (intro queue_frog_dive [of _ 256]) simp_all
  then show ?thesis
    using assms
    by (auto simp: download_dive_def hw_frog_dive_transfer_def demo_callback_def
        RB_LOGBOOK_SIZE_def)
qed

lemmas demo_frog_dive_facts = demo_frog_length demo_frog_slot length_demo_frog_entry
  demo_frog_length(2) [unfolded One_nat_def] demo_frog_slot(2) [unfolded One_nat_def]

lemma demo_frog_run_all:
  "hw_frog_foreach_dives queue_ops
     \<lparr>frog_port = DIVE # demo_frog_entry 9 @ READY # DIVE # demo_frog_entry 5 @ READY
                    # DIVE # demo_frog_entry 7 @ READY # [],
      frog_fingerprint = replicate 5 0\<rparr>
     demo_frog_logbook (Some demo_callback) ()
   = (DC_STATUS_SUCCESS, [(2, demo_frog_entry 9), (1, demo_frog_entry 5), (0, demo_frog_entry 7)],
      \<lparr>frog_port = [], frog_fingerprint = replicate 5 0\<rparr>, ())"
proof -
  let ?D = "download_dive (hw_frog_dive_transfer queue_ops) True RB_LOGBOOK_SIZE
              (hw_frog_slot demo_frog_logbook) (hw_frog_length demo_frog_logbook) 9
              (Some demo_callback)"
  let ?st = "\<lambda>rx p. \<lparr>dl_device = \<lparr>frog_port = rx, frog_fingerprint = replicate 5 0\<rparr>,
                      dl_profile = p, dl_userdata = ()\<rparr>"
  let ?rx2 = "DIVE # demo_frog_entry 7 @ READY # []"
  let ?rx1 = "DIVE # demo_frog_entry 5 @ READY # ?rx2"
  let ?rx0 = "DIVE # demo_frog_entry 9 @ READY # ?rx1"
  have d3: "download_dives ?D 2 3 (1 + 1 + 1) (?st [] (demo_frog_entry 7))
      = (DC_STATUS_SUCCESS, [], ?st [] (demo_frog_entry 7))"
    by (rule download_dives_stop) simp
  have "?D 0 (?st ?rx2 (demo_frog_entry 5))
      = Download_Next [(0, demo_frog_entry 7)] (?st [] (demo_frog_entry 7))"
    by (rule frog_dive_next) (simp_all add: demo_frog_dive_facts)
  then have s2: "?D (slot_index 2 (1 + 1)) (?st ?rx2 (demo_frog_entry 5))
      = Download_Next [(0, demo_frog_entry 7)] (?st [] (demo_frog_entry 7))"
    by (simp only: one_add_one slot_index_2)
  have d2: "download_dives ?D 2 3 (0 + 1 + 1) (?st ?rx2 (demo_frog_entry 5))
      = (DC_STATUS_SUCCESS, [(0, demo_frog_entry 7)] @ [], ?st [] (demo_frog_entry 7))"
    unfolding add_0
    by (rule download_dives_next [where dive = ?D and i = "1 + 1", OF _ s2 d3]) simp
  have "?D 1 (?st ?rx1 (demo_frog_entry 9))
      = Download_Next [(1, demo_frog_entry 5)] (?st ?rx2 (demo_frog_entry 5))"
    by (rule frog_dive_next) (simp_all add: demo_frog_dive_facts)
  then have s1: "?D (slot_index 2 (0 + 1)) (?st ?rx1 (demo_frog_entry 9))
      = Download_Next [(1, demo_frog_entry 5)] (?st ?rx2 (demo_frog_entry 5))"
    by (simp only: add_0 slot_index_2)
  have d1: "download_dives ?D 2 3 (0 + 1) (?st ?rx1 (demo_frog_entry 9))
      = (DC_STATUS_SUCCESS, [(1, demo_frog_entry 5)] @ [(0, demo_frog_entry 7)] @ [],
         ?st [] (demo_frog_entry 7))"
    by (rule download_dives_next [where dive = ?D and i = "0 + 1", OF _ s1 d2]) simp
  have "?D 2 (?st ?rx0 (replicate 256 0))
      = Download_Next [(2, demo_frog_entry 9)] (?st ?rx1 (demo_frog_entry 9))"
    by (rule frog_dive_next) (simp_all add: demo_frog_dive_facts)
  then have s0: "?D (slot_index 2 0) (?st ?rx0 (replicate 256 0))
      = Download_Next [(2, demo_frog_entry 9)] (?st ?rx1 (demo_frog_entry 9))"
    by (simp only: slot_index_2)
  have d0: "download_dives ?D 2 3 0 (?st ?rx0 (replicate 256 0))
      = (DC_STATUS_SUCCESS,
         [(2, demo_frog_entry 9)] @ [(1, demo_frog_entry 5)] @ [(0, demo_frog_entry 7)] @ [],
         ?st [] (demo_frog_entry 7))"
    by (rule download_dives_next [where dive = ?D and i = 0, OF _ s0 d1]) simp
  show ?thesis
    by (simp add: hw_frog_foreach_dives_def enumerate_dives_def demo_frog_located
        demo_frog_walk_all d0)
qed


lemma demo_frog_run_known:
  "hw_frog_foreach_dives queue_ops
     \<lparr>frog_port = DIVE # demo_frog_entry 9 @ READY # [], frog_fingerprint = [5, 1, 1, 1, 1]\<rparr>
     demo_frog_logbook (Some demo_callback) ()
   = (DC_STATUS_SUCCESS, [(2, demo_frog_entry 9)],
      \<lparr>frog_port = [], frog_fingerprint = [5, 1, 1, 1, 1]\<rparr>, ())"
proof -
  let ?D = "download_dive (hw_frog_dive_transfer queue_ops) True RB_LOGBOOK_SIZE
              (hw_frog_slot demo_frog_logbook) (hw_frog_length demo_frog_logbook) 9
              (Some demo_callback)"
  let ?st = "\<lambda>rx p. \<lparr>dl_device = \<lparr>frog_port = rx, frog_fingerprint = [5, 1, 1, 1, 1]\<rparr>,
                      dl_profile = p, dl_userdata = ()\<rparr>"
  let ?rx0 = "DIVE # demo_frog_entry 9 @ READY # []"
  have d1: "download_dives ?D 2 1 (0 + 1) (?st [] (demo_frog_entry 9))
      = (DC_STATUS_SUCCESS, [], ?st [] (demo_frog_entry 9))"
    by (rule download_dives_stop) simp
  have "?D 2 (?st ?rx0 (replicate 256 0))
      = Download_Next [(2, demo_frog_entry 9)] (?st [] (demo_frog_entry 9))"
    by (rule frog_dive_next) (simp_all add: demo_frog_dive_facts)
  then have s0: "?D (slot_index 2 0) (?st ?rx0 (replicate 256 0))
      = Download_Next [(2, demo_frog_entry 9)] (?st [] (demo_frog_entry 9))"
    by (simp only: slot_index_2)
  have d0: "download_dives ?D 2 1 0 (?st ?rx0 (replicate 256 0))
      = (DC_STATUS_SUCCESS, [(2, demo_frog_entry 9)] @ [], ?st [] (demo_frog_entry 9))"
    by (rule download_dives_next [where dive = ?D and i = 0, OF _ s0 d1]) simp
  show ?thesis
    by (simp add: hw_frog_foreach_dives_def enumerate_dives_def demo_frog_located
        demo_frog_walk_known d0 [unfolded One_nat_def])
qed

lemma demo_frog_entry_nonzero: "demo_frog_entry 9 \<noteq> replicate 256 0"
proof
  assume "demo_frog_entry 9 = replicate 256 0"
  then have "demo_frog_entry 9 ! 5 = replicate 256 (0 :: byte) ! 5" by simp
  then show False by (simp add: demo_frog_entry_def)
qed

lemma demo_frog_run_mismatch:
  "hw_frog_foreach_dives queue_ops
     \<lparr>frog_port = DIVE # replicate 256 0 @ READY # [], frog_fingerprint = replicate 5 0\<rparr>
     demo_frog_logbook (Some demo_callback) ()
   = (DC_STATUS_SUCCESS, [], \<lparr>frog_port = [], frog_fingerprint = replicate 5 0\<rparr>, ())"
proof -
  let ?D = "download_dive (hw_frog_dive_transfer queue_ops) True RB_LOGBOOK_SIZE
              (hw_frog_slot demo_frog_logbook) (hw_frog_length demo_frog_logbook) 9
              (Some demo_callback)"
  let ?st = "\<lambda>rx p. \<lparr>dl_device = \<lparr>frog_port = rx, frog_fingerprint = replicate 5 0\<rparr>,
                      dl_profile = p, dl_userdata = ()\<rparr>"
  let ?rx0 = "DIVE # replicate 256 0 @ READY # []"
  have "?D 2 (?st ?rx0 (replicate 256 0))
      = Download_Return DC_STATUS_SUCCESS [] (?st [] (replicate 256 0))"
    by (rule frog_dive_mismatch) (simp_all add: demo_frog_dive_facts demo_frog_entry_nonzero)
  then have s0: "?D (slot_index 2 0) (?st ?rx0 (replicate 256 0))
      = Download_Return DC_STATUS_SUCCESS [] (?st [] (replicate 256 0))"
    by (simp only: slot_index_2)
  have d0: "download_dives ?D 2 3 0 (?st ?rx0 (replicate 256 0))
      = (DC_STATUS_SUCCESS, [], ?st [] (replicate 256 0))"
    by (rule download_dives_return [where dive = ?D and i = 0, OF _ s0]) simp
  show ?thesis
    by (simp add: hw_frog_foreach_dives_def enumerate_dives_def demo_frog_located
        demo_frog_walk_all d0)
qed

text \<open>
  Claim C2, at a concrete input. The Frog logbook holds dives 7, 5 and 9 and the device
  answers the request for the latest dive (slot 2) with 256 zero bytes, which differ from
  the logbook entry of that slot. The source takes the branch that logs "Unexpected
  profile header" and says \<open>return rc\<close>: the status is that of the transfer, which
  has succeeded, so \<open>DC_STATUS_SUCCESS\<close> is returned, not \<open>DC_STATUS_PROTOCOL\<close>, and
  no dive is handed out.
\<close>

theorem profile_header_mismatch_status:
  "hw_frog_slot demo_frog_logbook 2 \<noteq> replicate 256 0
   \<and> fst (hw_frog_foreach_dives queue_ops
       \<lparr>frog_port = DIVE # replicate 256 0 @ READY # [], frog_fingerprint = replicate 5 0\<rparr>
       demo_frog_logbook (Some demo_callback) ()) = DC_STATUS_SUCCESS
   \<and> fst (snd (hw_frog_foreach_dives queue_ops
       \<lparr>frog_port = DIVE # replicate 256 0 @ READY # [], frog_fingerprint = replicate 5 0\<rparr>
       demo_frog_logbook (Some demo_callback) ())) = []"
  by (simp add: demo_frog_run_mismatch demo_frog_slot demo_frog_entry_nonzero)

text \<open>
  Claim C1, as stated, fails: the download loop never looks at the dive numbers. With a
  Frog logbook that holds dives 7, 5 and 9 in slots 0, 1 and 2, and no stored
  fingerprint, the dives handed to the callback carry the numbers 9, 5, 7.
\<close>

lemma demo_frog_entry_number: "array_uint16_le (drop 52 (demo_frog_entry n)) = unat n"
  by (simp add: demo_frog_entry_def array_uint16_le_def)

theorem dive_numbers_not_decreasing_counterexample:
  "map (\<lambda>(idx, dive). array_uint16_le (drop 52 dive))
     (fst (snd (hw_frog_foreach_dives queue_ops
       \<lparr>frog_port = DIVE # demo_frog_entry 9 @ READY # DIVE # demo_frog_entry 5 @ READY
                      # DIVE # demo_frog_entry 7 @ READY # [],
        frog_fingerprint = replicate 5 0\<rparr>
       demo_frog_logbook (Some demo_callback) ()))) = [9, 5, 7]"
  by (simp add: demo_frog_run_all demo_frog_entry_number)

text \<open>
  Claim C1, amended. For the OSTC3 and for the Frog, whatever the logbook holds and
  whatever the device answers: the callback is invoked at most \<open>RB_LOGBOOK_COUNT\<close> = 256
  times, every time for another slot; the slots are the latest one and those before it,
  in order, wrapping around the logbook; and none of them has a fingerprint region equal
  to the stored fingerprint, so the walk has stopped before the first such slot. Nothing
  is said about the dive numbers of the slots after the first.
\<close>

theorem foreach_newest_first:
  "(let logbook = (if compact then hw_ostc3_logbook_compact else hw_ostc3_logbook_full);
        latest = fst (snd (locate_latest True (hw_ostc3_erased logbook header)
                             (hw_ostc3_number logbook header) 0 (0, 0, 0)));
        slots = map fst (fst (snd (hw_ostc3_foreach_dives ops device compact header
                                     callback userdata)))
    in length slots \<le> RB_LOGBOOK_COUNT \<and> distinct slots
       \<and> slots = map (slot_index latest) [0..<length slots]
       \<and> (\<forall>k < length slots.
             \<not> hw_ostc3_fp_match logbook header (fingerprint device) (slot_index latest k)))
   \<and> (let latest = fst (snd (locate_latest False (hw_frog_erased fheader)
                               (hw_frog_number fheader) 0 (0, 0, 0)));
          slots = map fst (fst (snd (hw_frog_foreach_dives fops fdevice fheader
                                       fcallback fuserdata)))
      in length slots \<le> RB_LOGBOOK_COUNT \<and> distinct slots
         \<and> slots = map (slot_index latest) [0..<length slots]
         \<and> (\<forall>k < length slots.
               \<not> hw_frog_fp_match fheader (frog_fingerprint fdevice) (slot_index latest k)))"
proof (rule conjI)
  show "(let logbook = (if compact then hw_ostc3_logbook_compact else hw_ostc3_logbook_full);
        latest = fst (snd (locate_latest True (hw_ostc3_erased logbook header)
                             (hw_ostc3_number logbook header) 0 (0, 0, 0)));
        slots = map fst (fst (snd (hw_ostc3_foreach_dives ops device compact header
                                     callback userdata)))
    in length slots \<le> RB_LOGBOOK_COUNT \<and> distinct slots
       \<and> slots = map (slot_index latest) [0..<length slots]
       \<and> (\<forall>k < length slots.
             \<not> hw_ostc3_fp_match logbook header (fingerprint device) (slot_index latest k)))"
    unfolding hw_ostc3_foreach_dives_def Let_def
    by (rule enumerate_dives_slots [unfolded Let_def])
next
  show "(let latest = fst (snd (locate_latest False (hw_frog_erased fheader)
                               (hw_frog_number fheader) 0 (0, 0, 0)));
          slots = map fst (fst (snd (hw_frog_foreach_dives fops fdevice fheader
                                       fcallback fuserdata)))
      in length slots \<le> RB_LOGBOOK_COUNT \<and> distinct slots
         \<and> slots = map (slot_index latest) [0..<length slots]
         \<and> (\<forall>k < length slots.
               \<not> hw_frog_fp_match fheader (frog_fingerprint fdevice) (slot_index latest k)))"
    unfolding hw_frog_foreach_dives_def Let_def
    by (rule enumerate_dives_slots [unfolded Let_def])
qed

subsection \<open>A run over the OSTC3 compact logbook with dives 7, 5 and 9\<close>

lemma length_demo_ostc3_dive: "length (demo_ostc3_dive n) = 256"
  by (simp add: demo_ostc3_dive_def)

lemma queue_ostc3_dive:
  assumes "length out = n" "length data = n" "n \<le> 1024"
  shows "hw_ostc3_transfer queue_ops
           \<lparr>serial_port = DIVE # data @ READY # rest, fingerprint = fp, state = DOWNLOAD\<rparr>
           DIVE (Some [i]) out
         = (DC_STATUS_SUCCESS, data, \<lparr>serial_port = rest, fingerprint = fp, state = DOWNLOAD\<rparr>)"
proof -
  have "transfer_output queue_ops (data @ READY # rest) 0 (length out) out
          = (DC_STATUS_SUCCESS, data, READY # rest)"
    using assms queue_transfer_output [of out n "data @ READY # rest"] by simp
  then show ?thesis
    by (simp add: hw_ostc3_transfer_def queue_ops_simps read_buffer_def transfer_data_def
        transfer_input_def transfer_ready_def hw_ostc3_ready_def DIVE_def EXIT_def)
qed

lemma ostc3_dive_next:
  assumes "dl idx = 256" "length data = 256" "length p = 256"
  shows "download_dive (hw_ostc3_dive_transfer queue_ops) False sz sh dl 12
           (Some demo_callback) idx
           \<lparr>dl_device = \<lparr>serial_port = DIVE # data @ READY # rest, fingerprint = fp,
                          state = DOWNLOAD\<rparr>,
            dl_profile = p, dl_userdata = u\<rparr>
         = Download_Next [(idx, data)]
             \<lparr>dl_device = \<lparr>serial_port = rest, fingerprint = fp, state = DOWNLOAD\<rparr>,
              dl_profile = data, dl_userdata = u\<rparr>"
proof -
  have "hw_ostc3_transfer queue_ops
           \<lparr>serial_port = DIVE # data @ READY # rest, fingerprint = fp, state = DOWNLOAD\<rparr>
           DIVE (Some [of_nat idx]) (take 256 p)
         = (DC_STATUS_SUCCESS, data, \<lparr>serial_port = rest, fingerprint = fp, state = DOWNLOAD\<rparr>)"
    using assms by (intro queue_ostc3_dive [of _ 256]) simp_all
  then show ?thesis
    using assms
    by (simp add: download_dive_def hw_ostc3_dive_transfer_def demo_callback_def)
qed

lemma demo_ostc3_length:
  "hw_ostc3_length True hw_ostc3_logbook_compact demo_ostc3_logbook 0 = 256"
  "hw_ostc3_length True hw_ostc3_logbook_compact demo_ostc3_logbook 1 = 256"
  "hw_ostc3_length True hw_ostc3_logbook_compact demo_ostc3_logbook 2 = 256"
  by (simp_all add: hw_ostc3_length_def hw_ostc3_logbook_compact_def demo_ostc3_logbook_def
        demo_ostc3_entry_def RB_LOGBOOK_SIZE_COMPACT_def RB_LOGBOOK_SIZE_FULL_def
        array_uint24_le_def nth_append)

lemma demo_ostc3_fp:
  "hw_ostc3_fp_match hw_ostc3_logbook_compact demo_ostc3_logbook fp 0 \<longleftrightarrow> fp = [7, 1, 1, 1, 1]"
  "hw_ostc3_fp_match hw_ostc3_logbook_compact demo_ostc3_logbook fp 1 \<longleftrightarrow> fp = [5, 1, 1, 1, 1]"
  "hw_ostc3_fp_match hw_ostc3_logbook_compact demo_ostc3_logbook fp 2 \<longleftrightarrow> fp = [9, 1, 1, 1, 1]"
  by (auto simp: hw_ostc3_fp_match_def hw_ostc3_logbook_compact_def demo_ostc3_logbook_def
        demo_ostc3_entry_def RB_LOGBOOK_SIZE_COMPACT_def)

lemmas demo_ostc3_walk_facts = slot_index_2 demo_ostc3_slots demo_ostc3_length demo_ostc3_fp
  demo_ostc3_slots(2) [unfolded One_nat_def] demo_ostc3_length(2) [unfolded One_nat_def]
  demo_ostc3_fp(2) [unfolded One_nat_def]

lemma demo_ostc3_walk_known:
  "walk_back
     (\<lambda>idx. if hw_ostc3_erased hw_ostc3_logbook_compact demo_ostc3_logbook idx
            then Slot_Break else Slot_Ok)
     (hw_ostc3_length True hw_ostc3_logbook_compact demo_ostc3_logbook)
     (hw_ostc3_fp_match hw_ostc3_logbook_compact demo_ostc3_logbook [5, 1, 1, 1, 1])
     2 3 0 (0, 0) = Inr (1, 256)"
proof -
  let ?w = "walk_back
     (\<lambda>idx. if hw_ostc3_erased hw_ostc3_logbook_compact demo_ostc3_logbook idx
            then Slot_Break else Slot_Ok)
     (hw_ostc3_length True hw_ostc3_logbook_compact demo_ostc3_logbook)
     (hw_ostc3_fp_match hw_ostc3_logbook_compact demo_ostc3_logbook [5, 1, 1, 1, 1]) 2 3"
  have "?w 0 (0, 0) = ?w (0 + 1) (0 + 1, 256)"
    by (subst walk_back_next) (simp_all add: demo_ostc3_walk_facts)
  also have "\<dots> = ?w 1 (1, 256)" by simp
  also have "\<dots> = Inr (1, 256)"
    by (rule walk_back_match) (simp_all add: demo_ostc3_walk_facts)
  finally show ?thesis .
qed

lemma demo_ostc3_run_known:
  "hw_ostc3_foreach_dives queue_ops
     \<lparr>serial_port = DIVE # demo_ostc3_dive 9 @ READY # [], fingerprint = [5, 1, 1, 1, 1],
      state = DOWNLOAD\<rparr>
     True demo_ostc3_logbook (Some demo_callback) ()
   = (DC_STATUS_SUCCESS, [(2, demo_ostc3_dive 9)],
      \<lparr>serial_port = [], fingerprint = [5, 1, 1, 1, 1], state = DOWNLOAD\<rparr>, ())"
proof -
  let ?D = "download_dive (hw_ostc3_dive_transfer queue_ops) False
              (lb_size hw_ostc3_logbook_compact)
              (hw_ostc3_slot hw_ostc3_logbook_compact demo_ostc3_logbook)
              (hw_ostc3_length True hw_ostc3_logbook_compact demo_ostc3_logbook) 12
              (Some demo_callback)"
  let ?st = "\<lambda>rx p. \<lparr>dl_device = \<lparr>serial_port = rx, fingerprint = [5, 1, 1, 1, 1],
                                   state = DOWNLOAD\<rparr>,
                      dl_profile = p, dl_userdata = ()\<rparr>"
  let ?rx0 = "DIVE # demo_ostc3_dive 9 @ READY # []"
  have d1: "download_dives ?D 2 1 (0 + 1) (?st [] (demo_ostc3_dive 9))
      = (DC_STATUS_SUCCESS, [], ?st [] (demo_ostc3_dive 9))"
    by (rule download_dives_stop) simp
  have "?D 2 (?st ?rx0 (replicate 256 0))
      = Download_Next [(2, demo_ostc3_dive 9)] (?st [] (demo_ostc3_dive 9))"
    by (rule ostc3_dive_next) (simp_all add: demo_ostc3_length length_demo_ostc3_dive)
  then have s0: "?D (slot_index 2 0) (?st ?rx0 (replicate 256 0))
      = Download_Next [(2, demo_ostc3_dive 9)] (?st [] (demo_ostc3_dive 9))"
    by (simp only: slot_index_2)
  have d0: "download_dives ?D 2 1 0 (?st ?rx0 (replicate 256 0))
      = (DC_STATUS_SUCCESS, [(2, demo_ostc3_dive 9)] @ [], ?st [] (demo_ostc3_dive 9))"
    by (rule download_dives_next [where dive = ?D and i = 0, OF _ s0 d1]) simp
  show ?thesis
    by (simp add: hw_ostc3_foreach_dives_def enumerate_dives_def demo_ostc3_located
        demo_ostc3_walk_known d0 [unfolded One_nat_def])
qed

text \<open>
  Instances: with the fingerprint of dive 5 stored, an OSTC3 (compact logbook) and a Frog
  that hold dives 7, 5 and 9 hand out the dive of slot 2 alone.
\<close>

theorem foreach_newest_first_witness:
  "map fst (fst (snd (hw_ostc3_foreach_dives queue_ops
       \<lparr>serial_port = DIVE # demo_ostc3_dive 9 @ READY # [], fingerprint = [5, 1, 1, 1, 1],
        state = DOWNLOAD\<rparr>
       True demo_ostc3_logbook (Some demo_callback) ()))) = [2]
   \<and> fst (snd (locate_latest True (hw_ostc3_erased hw_ostc3_logbook_compact demo_ostc3_logbook)
                 (hw_ostc3_number hw_ostc3_logbook_compact demo_ostc3_logbook) 0 (0, 0, 0))) = 2
   \<and> slot_index 2 0 = 2
   \<and> \<not> hw_ostc3_fp_match hw_ostc3_logbook_compact demo_ostc3_logbook [5, 1, 1, 1, 1] 2
   \<and> map fst (fst (snd (hw_frog_foreach_dives queue_ops
       \<lparr>frog_port = DIVE # demo_frog_entry 9 @ READY # [], frog_fingerprint = [5, 1, 1, 1, 1]\<rparr>
       demo_frog_logbook (Some demo_callback) ()))) = [2]
   \<and> fst (snd (locate_latest False (hw_frog_erased demo_frog_logbook)
                 (hw_frog_number demo_frog_logbook) 0 (0, 0, 0))) = 2
   \<and> \<not> hw_frog_fp_match demo_frog_logbook [5, 1, 1, 1, 1] 2"
  using foreach_newest_first [of True demo_ostc3_logbook queue_ops
      "\<lparr>serial_port = DIVE # demo_ostc3_dive 9 @ READY # [], fingerprint = [5, 1, 1, 1, 1],
        state = DOWNLOAD\<rparr>"
      "Some demo_callback" "()" demo_frog_logbook queue_ops
      "\<lparr>frog_port = DIVE # demo_frog_entry 9 @ READY # [], frog_fingerprint = [5, 1, 1, 1, 1]\<rparr>"
      "Some demo_callback" "()"]
  by (simp add: demo_ostc3_run_known demo_frog_run_known demo_ostc3_located demo_frog_located
      slot_index_2 demo_ostc3_fp demo_frog_fp)

section \<open>The time samples of the parsers\<close>


lemma time_steps_0 [simp]: "time_steps t i 0 = []"
  by (simp add: time_steps_def)




subsection \<open>Shearwater\<close>






subsection \<open>Suunto D9\<close>














subsection \<open>The position of the Suunto D9 loop\<close>





subsection \<open>Runs of the Suunto D9 loop\<close>











subsection \<open>Oceanic Atom2\<close>














subsection \<open>Atomics Cobalt\<close>


lemma cobalt_samples_loop_stop:
  "\<not> cb_offset s + SZ_SEGMENT \<le> length data \<Longrightarrow>
     cobalt_samples_loop data interval n tank s = (DC_STATUS_SUCCESS, [])"
  by (subst cobalt_samples_loop.simps) simp

lemma cobalt_samples_loop_step:
  "cb_offset s + SZ_SEGMENT \<le> length data \<Longrightarrow>
     cobalt_samples_loop data interval n tank s
       = (case cobalt_sample data interval n tank s of
            (out, Inl e) \<Rightarrow> (e, out)
          | (out, Inr s') \<Rightarrow>
              (case cobalt_samples_loop data interval n tank
                      (s'\<lparr>cb_offset := cb_offset s + SZ_SEGMENT\<rparr>) of
                 (rc, rest) \<Rightarrow> (rc, out @ rest)))"
  by (subst cobalt_samples_loop.simps) simp



subsection \<open>A run of the Oceanic Atom2 loop\<close>





subsection \<open>When the time samples do not decrease\<close>







subsection \<open>A run of the Atomics Cobalt loop\<close>

lemma cobalt_primary_tank_found:
  "tank < n \<Longrightarrow> array_uint16_le (drop (SZ_HEADER + SZ_GASMIX * tank + 12) data) = 1 \<Longrightarrow>
     cobalt_primary_tank data n tank = tank"
  by (subst cobalt_primary_tank.simps) simp

lemma cobalt_gasmix_index_found:
  "idx < n \<Longrightarrow> unat (data ! (SZ_HEADER + SZ_GASMIX * idx + 0)) = gasmix \<Longrightarrow>
     cobalt_gasmix_index data n gasmix idx = idx"
  by (subst cobalt_gasmix_index.simps) simp

lemma demo_cobalt_bytes:
  "length demo_cobalt_blob = 278" "demo_cobalt_blob ! 0x1a = 10" "demo_cobalt_blob ! 0x2a = 1"
  "demo_cobalt_blob ! 0x2b = 0" "array_uint16_le (drop 0x50 demo_cobalt_blob) = 2"
  "array_uint16_le (drop 240 demo_cobalt_blob) = 1" "demo_cobalt_blob ! 228 = 0"
  "array_uint16_le (drop 246 demo_cobalt_blob) = 1500"
  "array_uint16_le (drop 248 demo_cobalt_blob) = 0"
  "demo_cobalt_blob ! 250 = 0" "demo_cobalt_blob ! 251 = 0" "demo_cobalt_blob ! 254 = 0"
  "demo_cobalt_blob ! 257 = 0"
  "array_uint16_le (drop 262 demo_cobalt_blob) = 2000"
  "array_uint16_le (drop 264 demo_cobalt_blob) = 0"
  "demo_cobalt_blob ! 266 = 0" "demo_cobalt_blob ! 267 = 0" "demo_cobalt_blob ! 270 = 0"
  "demo_cobalt_blob ! 273 = 0"
  by (simp_all add: demo_cobalt_blob_def array_uint16_le_def nth_append)

lemma demo_cobalt_run:
  "atomics_cobalt_parser_samples_foreach demo_cobalt_blob
     = (DC_STATUS_SUCCESS,
        [DC_SAMPLE_TIME 10, DC_SAMPLE_DEPTH 1500, DC_SAMPLE_PRESSURE 0 0,
         DC_SAMPLE_GASMIX 0, DC_SAMPLE_TEMPERATURE 0, DC_SAMPLE_DECO DC_DECO_NDL 0 0,
         DC_SAMPLE_TIME 20, DC_SAMPLE_DEPTH 2000, DC_SAMPLE_PRESSURE 0 0,
         DC_SAMPLE_TEMPERATURE 0, DC_SAMPLE_DECO DC_DECO_NDL 0 0])"
proof -
  have tank: "cobalt_primary_tank demo_cobalt_blob 1 0 = 0"
    by (rule cobalt_primary_tank_found)
       (simp_all add: SZ_HEADER_def SZ_GASMIX_def demo_cobalt_bytes)
  have idx: "cobalt_gasmix_index demo_cobalt_blob 1 0 0 = 0"
    by (rule cobalt_gasmix_index_found)
       (simp_all add: SZ_HEADER_def SZ_GASMIX_def demo_cobalt_bytes)
  have loop: "cobalt_samples_loop demo_cobalt_blob 10 1 0
        \<lparr>cb_offset = 246, cb_time = 0, cb_in_deco = 0, cb_gasmix_previous = 0xFFFFFFFF\<rparr>
      = (DC_STATUS_SUCCESS,
        [DC_SAMPLE_TIME 10, DC_SAMPLE_DEPTH 1500, DC_SAMPLE_PRESSURE 0 0,
         DC_SAMPLE_GASMIX 0, DC_SAMPLE_TEMPERATURE 0, DC_SAMPLE_DECO DC_DECO_NDL 0 0,
         DC_SAMPLE_TIME 20, DC_SAMPLE_DEPTH 2000, DC_SAMPLE_PRESSURE 0 0,
         DC_SAMPLE_TEMPERATURE 0, DC_SAMPLE_DECO DC_DECO_NDL 0 0])"
    by (simp add: cobalt_samples_loop_step cobalt_samples_loop_stop cobalt_sample_def Let_def
        SZ_SEGMENT_def demo_cobalt_bytes idx idx [unfolded One_nat_def] u32_def)
  show ?thesis
    unfolding atomics_cobalt_parser_samples_foreach_def Let_def
    by (simp add: demo_cobalt_bytes SZ_HEADER_def SZ_GASMIX_def SZ_GASSWITCH_def SZ_SEGMENT_def
        tank tank [unfolded One_nat_def] loop loop [unfolded One_nat_def])
qed

subsection \<open>The sample loops: time and position\<close>









end
